theory Spec2Isabelle
  imports Complex_Main
begin

unbundle bit_operations_syntax

section \<open>What PyMuPDF hands to the analyser\<close>

text \<open>
  \<open>_analyze_with_pymupdf\<close> reads a document through four library calls:
  \<open>doc.metadata\<close> (a dictionary of strings), \<open>page.get_text()\<close> (the plain text of a
  page), \<open>page.get_text("dict")["blocks"]\<close> (text blocks made of lines made of spans, and
  image blocks) and \<open>page.find_tables()\<close> (each table read through \<open>table.extract()\<close>,
  rows of cells that are a string or \<open>None\<close>). Their results are the input of the model.
  A character stands for a code point below 256; a font size is a real number.
\<close>

record span =
  span_text :: string
  span_size :: real
  span_flags :: int

datatype block =
    TextBlock "span list list"
  | ImageBlock "int option" "int option"
  | OtherBlock

type_synonym table = "string option list list"

record page =
  page_text :: string
  page_blocks :: "block list"
  page_tables :: "table list"

record document =
  doc_metadata :: "string \<rightharpoonup> string"
  doc_pages :: "page list"

section \<open>The structure that is built\<close>

text \<open>
  A content entry is a plain string, a dictionary with \<open>"type": "table"\<close> (caption,
  headers, rows) or a dictionary with the key \<open>"image"\<close> (description, position).
\<close>

datatype content_item =
    Text string
  | Table string "string list" "string list list"
  | Image string string

record subsection_dict =
  sub_title :: string
  content :: "content_item list"

record section_dict =
  sec_title :: string
  subsections :: "subsection_dict list"

record metadata =
  num_pages :: nat
  author :: string
  subject :: string
  extraction_date :: string
  extraction_method :: string

record structure_dict =
  title :: string
  metadata :: metadata
  sections :: "section_dict list"

text \<open>
  \<open>current_section\<close> and \<open>current_subsection\<close> are references to dictionaries that sit
  in the tree. Every dictionary is put into exactly one list as soon as it is created and
  the lists only grow, so the place of a dictionary (the index of the section, and for a
  subsection the index inside that section as well) names it for good: a reference is
  that place. \<open>DanglingRef\<close> is what the model answers when a place names no node; Python
  has no such case, since there the reference is the object.
\<close>

datatype error = IndexError | DanglingRef

record state =
  struct :: structure_dict
  current_section :: "nat option"
  current_subsection :: "(nat \<times> nat) option"

section \<open>Strings\<close>

definition is_space :: "char \<Rightarrow> bool" where
  "is_space c =
     (let n = (of_char c :: nat)
      in (9 \<le> n \<and> n \<le> 13) \<or> (28 \<le> n \<and> n \<le> 32) \<or> n = 133 \<or> n = 160)"

definition strip :: "string \<Rightarrow> string" where
  "strip s = rev (dropWhile is_space (rev (dropWhile is_space s)))"

definition first_line :: "string \<Rightarrow> string" where
  "first_line s = takeWhile (\<lambda>c. c \<noteq> CHR 0x0A) s"

definition digit_char :: "nat \<Rightarrow> char" where
  "digit_char d = char_of (48 + d)"

function str_nat :: "nat \<Rightarrow> string" where
  "str_nat n = (if n < 10 then [digit_char n] else str_nat (n div 10) @ [digit_char (n mod 10)])"
  by pat_completeness auto
termination
  by (relation "measure id") auto

declare str_nat.simps [simp del]

definition str_int :: "int \<Rightarrow> string" where
  "str_int i = (if i < 0 then CHR ''-'' # str_nat (nat (- i)) else str_nat (nat i))"

definition dict_get :: "('k \<rightharpoonup> 'v) \<Rightarrow> 'k \<Rightarrow> 'v \<Rightarrow> 'v" where
  "dict_get d k dflt = (case d k of None \<Rightarrow> dflt | Some v \<Rightarrow> v)"

section \<open>Loops that stop at the first exception\<close>

fun for_each :: "('a \<Rightarrow> 's \<Rightarrow> error + 's) \<Rightarrow> 'a list \<Rightarrow> 's \<Rightarrow> error + 's" where
  "for_each body [] st = Inr st"
| "for_each body (x # xs) st =
     (case body x st of Inl e \<Rightarrow> Inl e | Inr st' \<Rightarrow> for_each body xs st')"

section \<open>\<open>PDFAnalyzer._add_content\<close>\<close>

definition append_content :: "content_item \<Rightarrow> subsection_dict \<Rightarrow> subsection_dict" where
  "append_content c sub = sub\<lparr>content := content sub @ [c]\<rparr>"

definition upd_last :: "('a \<Rightarrow> 'a) \<Rightarrow> 'a list \<Rightarrow> 'a list" where
  "upd_last f xs = butlast xs @ [f (last xs)]"

definition add_content ::
  "content_item \<Rightarrow> structure_dict \<Rightarrow> nat option \<Rightarrow> (nat \<times> nat) option \<Rightarrow> error + structure_dict" where
  "add_content c s sec_ref sub_ref =
     (case sub_ref of
        Some (i, j) \<Rightarrow>
          (if i < length (sections s) \<and> j < length (subsections (sections s ! i))
           then Inr (s\<lparr>sections := (sections s)
                  [i := (sections s ! i)\<lparr>subsections := (subsections (sections s ! i))
                     [j := append_content c (subsections (sections s ! i) ! j)]\<rparr>]\<rparr>)
           else Inl DanglingRef)
      | None \<Rightarrow>
          (case sec_ref of
             Some i \<Rightarrow>
               (if i < length (sections s)
                then
                  let sec = sections s ! i;
                      subs = (if subsections sec = []
                              then subsections sec @ [\<lparr>sub_title = ''Contenu'', content = []\<rparr>]
                              else subsections sec)
                  in Inr (s\<lparr>sections := (sections s)
                        [i := sec\<lparr>subsections := upd_last (append_content c) subs\<rparr>]\<rparr>)
                else Inl DanglingRef)
           | None \<Rightarrow>
               let secs = (if sections s = []
                           then sections s @
                             [\<lparr>sec_title = ''Contenu principal'',
                               subsections = [\<lparr>sub_title = ''Introduction'', content = []\<rparr>]\<rparr>]
                           else sections s)
               in if subsections (last secs) = [] then Inl IndexError
                  else Inr (s\<lparr>sections := upd_last
                          (\<lambda>sec. sec\<lparr>subsections :=
                             upd_last (append_content c) (subsections sec)\<rparr>) secs\<rparr>)))"

text \<open>The call as the analyser makes it: the pointers are its locals and stay as they are.\<close>

definition call_add_content :: "content_item \<Rightarrow> state \<Rightarrow> error + state" where
  "call_add_content c st =
     (case add_content c (struct st) (current_section st) (current_subsection st) of
        Inl e \<Rightarrow> Inl e
      | Inr s \<Rightarrow> Inr (st\<lparr>struct := s\<rparr>))"

section \<open>\<open>PDFAnalyzer._analyze_with_pymupdf\<close>\<close>

definition open_section :: "string \<Rightarrow> state \<Rightarrow> state" where
  "open_section t st =
     st\<lparr>struct := (struct st)\<lparr>sections := sections (struct st) @
                         [\<lparr>sec_title = t, subsections = []\<rparr>]\<rparr>,
        current_section := Some (length (sections (struct st))),
        current_subsection := None\<rparr>"

definition open_subsection :: "string \<Rightarrow> state \<Rightarrow> error + state" where
  "open_subsection t st =
     (case current_section st of
        None \<Rightarrow> Inl DanglingRef
      | Some i \<Rightarrow>
          let secs = sections (struct st) in
          if i < length secs
          then Inr (st\<lparr>struct := (struct st)\<lparr>sections := secs
                        [i := (secs ! i)\<lparr>subsections := subsections (secs ! i) @
                                [\<lparr>sub_title = t, content = []\<rparr>]\<rparr>]\<rparr>,
                      current_subsection := Some (i, length (subsections (secs ! i)))\<rparr>)
          else Inl DanglingRef)"

definition process_span :: "span \<Rightarrow> state \<Rightarrow> error + state" where
  "process_span sp st =
     (let text = strip (span_text sp) in
      if text = [] then Inr st
      else
        let font_size = span_size sp;
            font_flags = span_flags sp;
            is_bold = font_flags AND 2 ^ 4
        in if font_size > 16 \<or> (is_bold \<noteq> 0 \<and> font_size > 12)
           then Inr (open_section text st)
           else if (font_size > 14 \<or> (is_bold \<noteq> 0 \<and> font_size > 11))
                   \<and> current_section st \<noteq> None
           then open_subsection text st
           else call_add_content (Text text) st)"

definition page_position :: "nat \<Rightarrow> string" where
  "page_position page_num = ''page '' @ str_nat (page_num + 1)"

definition image_info :: "nat \<Rightarrow> int option \<Rightarrow> int option \<Rightarrow> content_item" where
  "image_info page_num w h =
     Image (''Image d'' @ [CHR 0xE9] @ ''tect'' @ [CHR 0xE9] @ ''e (dimensions: '' @
            str_int (case w of None \<Rightarrow> 0 | Some v \<Rightarrow> v) @ ''x'' @
            str_int (case h of None \<Rightarrow> 0 | Some v \<Rightarrow> v) @ '')'')
           (page_position page_num)"

definition process_block :: "nat \<Rightarrow> block \<Rightarrow> state \<Rightarrow> error + state" where
  "process_block page_num b st =
     (case b of
        TextBlock lines \<Rightarrow> for_each (\<lambda>line. for_each process_span line) lines st
      | ImageBlock w h \<Rightarrow> call_add_content (image_info page_num w h) st
      | OtherBlock \<Rightarrow> Inr st)"

definition cell_str :: "string option \<Rightarrow> string" where
  "cell_str cell = (case cell of None \<Rightarrow> [] | Some s \<Rightarrow> if s = [] then [] else s)"

definition add_row :: "string list \<times> string list list \<Rightarrow> string option list
    \<Rightarrow> string list \<times> string list list" where
  "add_row hr row =
     (if fst hr = [] then (map cell_str row, snd hr)
      else (fst hr, snd hr @ [map cell_str row]))"

definition table_data :: "nat \<Rightarrow> nat \<Rightarrow> table \<Rightarrow> content_item" where
  "table_data page_num table_num t =
     (let hr = foldl add_row ([], []) t
      in Table (''Tableau '' @ str_nat (table_num + 1) @ '' - Page '' @ str_nat (page_num + 1))
           (fst hr) (snd hr))"

definition process_page :: "nat \<times> page \<Rightarrow> state \<Rightarrow> error + state" where
  "process_page np st =
     (case for_each (process_block (fst np)) (page_blocks (snd np)) st of
        Inl e \<Rightarrow> Inl e
      | Inr st' \<Rightarrow>
          for_each (\<lambda>nt. call_add_content (table_data (fst np) (fst nt) (snd nt)))
            (enumerate 0 (page_tables (snd np))) st')"

definition resolve_title :: "document \<Rightarrow> error + string" where
  "resolve_title doc =
     (let t = dict_get (doc_metadata doc) ''title'' []
      in if t \<noteq> [] then Inr t
         else (case doc_pages doc of
                 [] \<Rightarrow> Inl IndexError
               | first_page # _ \<Rightarrow>
                   let first_text = take 100 (page_text first_page)
                   in Inr (if first_text \<noteq> [] then first_line first_text
                           else ''Document sans titre'')))"

definition initial_state :: "string \<Rightarrow> string \<Rightarrow> document \<Rightarrow> state" where
  "initial_state now t doc =
     \<lparr>struct =
        \<lparr>title = t,
         metadata =
           \<lparr>num_pages = length (doc_pages doc),
            author = dict_get (doc_metadata doc) ''author'' [],
            subject = dict_get (doc_metadata doc) ''subject'' [],
            extraction_date = now,
            extraction_method = ''PyMuPDF''\<rparr>,
         sections = []\<rparr>,
      current_section = None,
      current_subsection = None\<rparr>"

text \<open>\<open>now\<close> is what \<open>datetime.now().isoformat()\<close> returns at the call.\<close>

definition analyze_with_pymupdf :: "string \<Rightarrow> document \<Rightarrow> error + structure_dict" where
  "analyze_with_pymupdf now doc =
     (case resolve_title doc of
        Inl e \<Rightarrow> Inl e
      | Inr t \<Rightarrow>
          (case for_each process_page (enumerate 0 (doc_pages doc)) (initial_state now t doc) of
             Inl e \<Rightarrow> Inl e
           | Inr st \<Rightarrow> Inr (struct st)))"

section \<open>The pass as a stream of primitives\<close>

text \<open>
  The loops of \<open>_analyze_with_pymupdf\<close> visit, page after page, the spans of the text
  blocks and the image blocks in the order of the blocks, and then the tables of the
  page. A primitive is one such visit: a span, an image block with the number of its
  page, or a table with the numbers of its page and of the table. \<open>primitives\<close> lists
  the visits of a document in the order of the loops, and \<open>process_primitive\<close> is what
  the body of the loops does at one visit.
\<close>

datatype primitive =
    TextRun span
  | ImagePrim nat "int option" "int option"
  | TablePrim nat nat table

definition process_primitive :: "primitive \<Rightarrow> state \<Rightarrow> error + state" where
  "process_primitive p st =
     (case p of
        TextRun sp \<Rightarrow> process_span sp st
      | ImagePrim page_num w h \<Rightarrow> call_add_content (image_info page_num w h) st
      | TablePrim page_num table_num t \<Rightarrow> call_add_content (table_data page_num table_num t) st)"

definition block_primitives :: "nat \<Rightarrow> block \<Rightarrow> primitive list" where
  "block_primitives page_num b =
     (case b of
        TextBlock lines \<Rightarrow> map TextRun (concat lines)
      | ImageBlock w h \<Rightarrow> [ImagePrim page_num w h]
      | OtherBlock \<Rightarrow> [])"

definition page_primitives :: "nat \<times> page \<Rightarrow> primitive list" where
  "page_primitives np =
     concat (map (block_primitives (fst np)) (page_blocks (snd np))) @
     map (\<lambda>nt. TablePrim (fst np) (fst nt) (snd nt)) (enumerate 0 (page_tables (snd np)))"

definition primitives :: "document \<Rightarrow> primitive list" where
  "primitives doc = concat (map page_primitives (enumerate 0 (doc_pages doc)))"

section \<open>Kinds of spans and of primitives\<close>

text \<open>The two font tests of the analyser, on the size and on bit 4 of the flags of a span.\<close>

definition section_font :: "span \<Rightarrow> bool" where
  "section_font sp \<longleftrightarrow> span_size sp > 16 \<or> (span_flags sp AND 2 ^ 4 \<noteq> 0 \<and> span_size sp > 12)"

definition subsection_font :: "span \<Rightarrow> bool" where
  "subsection_font sp \<longleftrightarrow> span_size sp > 14 \<or> (span_flags sp AND 2 ^ 4 \<noteq> 0 \<and> span_size sp > 11)"

text \<open>
  A primitive is skipped when it is a span with no text left after stripping; it is a
  section heading when it is a span with text that passes the first font test; it has
  the subsection font when it is a span with text that fails the first test and passes
  the second one.
\<close>

definition is_skipped :: "primitive \<Rightarrow> bool" where
  "is_skipped p = (case p of TextRun sp \<Rightarrow> strip (span_text sp) = [] | _ \<Rightarrow> False)"

definition is_section_heading :: "primitive \<Rightarrow> bool" where
  "is_section_heading p =
     (case p of TextRun sp \<Rightarrow> strip (span_text sp) \<noteq> [] \<and> section_font sp | _ \<Rightarrow> False)"

definition has_subsection_font :: "primitive \<Rightarrow> bool" where
  "has_subsection_font p =
     (case p of
        TextRun sp \<Rightarrow> strip (span_text sp) \<noteq> [] \<and> \<not> section_font sp \<and> subsection_font sp
      | _ \<Rightarrow> False)"

definition heading_title :: "primitive \<Rightarrow> string" where
  "heading_title p = (case p of TextRun sp \<Rightarrow> strip (span_text sp) | _ \<Rightarrow> [])"

section \<open>References into the tree\<close>

text \<open>
  \<open>valid_refs\<close>: each reference that is set names a node of the tree. \<open>refs_at_end\<close>:
  a current section is the last section of the tree, and a current subsection is the
  last subsection of the current section; with no current section there is no current
  subsection, and the last section of the tree, if any, has a subsection.
\<close>

definition valid_refs :: "state \<Rightarrow> bool" where
  "valid_refs st =
     ((case current_section st of None \<Rightarrow> True
       | Some i \<Rightarrow> i < length (sections (struct st))) \<and>
      (case current_subsection st of None \<Rightarrow> True
       | Some (i, j) \<Rightarrow> i < length (sections (struct st)) \<and>
           j < length (subsections (sections (struct st) ! i))))"

definition refs_at_end :: "state \<Rightarrow> bool" where
  "refs_at_end st =
     (case current_section st of
        None \<Rightarrow>
          current_subsection st = None \<and>
          (sections (struct st) = [] \<or> subsections (last (sections (struct st))) \<noteq> [])
      | Some i \<Rightarrow>
          Suc i = length (sections (struct st)) \<and>
          (case current_subsection st of
             None \<Rightarrow> True
           | Some (i', j) \<Rightarrow>
               i' = i \<and> Suc j = length (subsections (sections (struct st) ! i))))"

section \<open>The outline of a tree and the outline of a stream\<close>

text \<open>
  The outline of a tree is the list of its sections, each as its title with the titles
  of its subsections. \<open>heading_groups\<close> cuts a stream at its section headings: each
  heading with the primitives that follow it up to the next section heading.
  \<open>expected_outline\<close> is the outline that a stream calls for: the default pair when some
  primitive that is not skipped comes before the first section heading, then each group
  under the title of its heading, with the subsection \<open>Contenu\<close> when the first
  primitive of the group that is not skipped has not the subsection font, and then the
  titles of the spans of the group that have the subsection font.
\<close>

definition section_outline :: "section_dict \<Rightarrow> string \<times> string list" where
  "section_outline sec = (sec_title sec, map sub_title (subsections sec))"

definition outline :: "structure_dict \<Rightarrow> (string \<times> string list) list" where
  "outline s = map section_outline (sections s)"

fun heading_groups :: "primitive list \<Rightarrow> (string \<times> primitive list) list" where
  "heading_groups [] = []"
| "heading_groups (p # ps) =
     (if is_section_heading p
      then (heading_title p, takeWhile (\<lambda>q. \<not> is_section_heading q) ps) # heading_groups ps
      else heading_groups ps)"

definition needs_default :: "primitive list \<Rightarrow> bool" where
  "needs_default seg =
     (case filter (\<lambda>p. \<not> is_skipped p) seg of
        [] \<Rightarrow> False
      | p # _ \<Rightarrow> \<not> has_subsection_font p)"

definition subsection_titles :: "bool \<Rightarrow> primitive list \<Rightarrow> string list" where
  "subsection_titles none_yet seg =
     (if none_yet \<and> needs_default seg then [''Contenu''] else []) @
     map heading_title (filter has_subsection_font seg)"

definition group_outline :: "string \<times> primitive list \<Rightarrow> string \<times> string list" where
  "group_outline g = (fst g, subsection_titles True (snd g))"

definition orphan_outline :: "primitive list \<Rightarrow> (string \<times> string list) list" where
  "orphan_outline ps =
     (if filter (\<lambda>p. \<not> is_skipped p) (takeWhile (\<lambda>q. \<not> is_section_heading q) ps) = []
      then []
      else [(''Contenu principal'', [''Introduction''])])"

definition expected_outline :: "primitive list \<Rightarrow> (string \<times> string list) list" where
  "expected_outline ps = orphan_outline ps @ map group_outline (heading_groups ps)"

section \<open>States, documents and a stream to run the analyser on\<close>

definition example_state :: state where
  "example_state =
     \<lparr>struct = \<lparr>title = ''T'',
        metadata = \<lparr>num_pages = 1, author = [], subject = [], extraction_date = ''now'',
                    extraction_method = ''PyMuPDF''\<rparr>,
        sections = [\<lparr>sec_title = ''Intro'',
                     subsections = [\<lparr>sub_title = ''A'', content = [Text ''hello'']\<rparr>]\<rparr>]\<rparr>,
      current_section = Some 0,
      current_subsection = Some (0, 0)\<rparr>"

definition empty_state :: state where
  "empty_state =
     \<lparr>struct = \<lparr>title = ''T'',
        metadata = \<lparr>num_pages = 1, author = [], subject = [], extraction_date = ''now'',
                    extraction_method = ''PyMuPDF''\<rparr>,
        sections = []\<rparr>,
      current_section = None,
      current_subsection = None\<rparr>"

definition heading_only :: structure_dict where
  "heading_only =
     \<lparr>title = ''T'',
      metadata = \<lparr>num_pages = 1, author = [], subject = [], extraction_date = ''now'',
                  extraction_method = ''PyMuPDF''\<rparr>,
      sections = [\<lparr>sec_title = ''Intro'', subsections = []\<rparr>]\<rparr>"

definition hello_span :: span where
  "hello_span = \<lparr>span_text = ''hello'', span_size = 10, span_flags = 0\<rparr>"

definition table_page :: page where
  "table_page =
     \<lparr>page_text = [], page_blocks = [],
      page_tables = [[[Some ''a''], [Some ''1'']], [[Some ''b'']]]\<rparr>"

definition table_doc :: document where
  "table_doc = \<lparr>doc_metadata = [''title'' \<mapsto> ''Report''], doc_pages = [table_page]\<rparr>"

definition empty_doc :: document where
  "empty_doc = \<lparr>doc_metadata = Map.empty, doc_pages = []\<rparr>"

definition blank_doc :: document where
  "blank_doc =
     \<lparr>doc_metadata = Map.empty,
      doc_pages = [\<lparr>page_text = [], page_blocks = [TextBlock [[]], OtherBlock], page_tables = []\<rparr>]\<rparr>"

definition hello_state :: state where
  "hello_state =
     (initial_state ''now'' ''T'' blank_doc)\<lparr>struct :=
        (struct (initial_state ''now'' ''T'' blank_doc))\<lparr>sections :=
          [\<lparr>sec_title = ''Contenu principal'',
            subsections = [\<lparr>sub_title = ''Introduction'', content = [Text ''hello'']\<rparr>]\<rparr>]\<rparr>\<rparr>"

definition late_text_doc :: document where
  "late_text_doc =
     \<lparr>doc_metadata = Map.empty,
      doc_pages =
        [\<lparr>page_text = [], page_blocks = [], page_tables = []\<rparr>,
         \<lparr>page_text = ''hello'',
          page_blocks = [TextBlock [[hello_span]]], page_tables = []\<rparr>]\<rparr>"

definition titled_doc :: document where
  "titled_doc =
     \<lparr>doc_metadata = [''title'' \<mapsto> ''Report''],
      doc_pages = [\<lparr>page_text = ''hello'', page_blocks = [], page_tables = []\<rparr>]\<rparr>"

definition two_line_doc :: document where
  "two_line_doc =
     \<lparr>doc_metadata = [''title'' \<mapsto> []],
      doc_pages = [\<lparr>page_text = ''Annual'' @ [CHR 0x0A] @ ''report'',
                    page_blocks = [], page_tables = []\<rparr>]\<rparr>"

definition sample_stream :: "primitive list" where
  "sample_stream =
     [TextRun hello_span,
      TextRun \<lparr>span_text = ''Intro'', span_size = 18, span_flags = 0\<rparr>,
      TextRun \<lparr>span_text = '' '', span_size = 18, span_flags = 0\<rparr>,
      TablePrim 0 0 [[Some ''a'']],
      TextRun \<lparr>span_text = ''Sub'', span_size = 15, span_flags = 0\<rparr>,
      TextRun \<lparr>span_text = ''Intro'', span_size = 13, span_flags = 16\<rparr>,
      TextRun \<lparr>span_text = ''Sub'', span_size = 12, span_flags = 20\<rparr>,
      TextRun hello_span,
      ImagePrim 0 None None]"

section \<open>Stripping\<close>

lemma strip_blank: "strip '' '' = []"
  by (simp add: strip_def is_space_def)

lemma strip_Intro: "strip ''Intro'' = ''Intro''"
  by (simp add: strip_def is_space_def)

section \<open>Spans with nothing but white space\<close>

text \<open>
  C8. A span whose text is empty once stripped is skipped: \<open>process_span\<close> returns the
  state it was given, so the tree, the current section and the current subsection are
  what they were.
\<close>

theorem empty_text_run_skipped:
  "strip (span_text sp) = [] \<Longrightarrow> process_span sp st = Inr st"
  by (simp add: process_span_def)

theorem empty_text_run_skipped_witness:
  "strip (span_text \<lparr>span_text = '' '', span_size = 18, span_flags = 16\<rparr>) = [] \<and>
   process_span \<lparr>span_text = '' '', span_size = 18, span_flags = 16\<rparr> example_state
     = Inr example_state"
  using empty_text_run_skipped
    [of "\<lparr>span_text = '' '', span_size = 18, span_flags = 16\<rparr>" example_state]
  by (simp add: strip_blank)

section \<open>Section headings\<close>

lemma add_content_length:
  assumes "add_content c s r1 r2 = Inr s'"
  shows "length (sections s') =
           (if sections s = [] \<and> r1 = None \<and> r2 = None then 1 else length (sections s))"
proof (cases r2)
  case (Some ij)
  obtain i j where ij: "ij = (i, j)" by (cases ij)
  from assms Some ij show ?thesis
    by (cases "i < length (sections s) \<and> j < length (subsections (sections s ! i))")
       (auto simp: add_content_def)
next
  case None
  note r2 = None
  show ?thesis
  proof (cases r1)
    case (Some i)
    from assms r2 Some show ?thesis
      by (cases "i < length (sections s)") (auto simp: add_content_def Let_def)
  next
    case None
    from assms r2 None show ?thesis
      by (cases "sections s = []") (auto simp: add_content_def Let_def upd_last_def split: if_splits)
  qed
qed

lemma add_content_first:
  assumes "add_content c s None None = Inr s'" "sections s = []"
  shows "sections s' = [\<lparr>sec_title = ''Contenu principal'',
              subsections = [\<lparr>sub_title = ''Introduction'', content = [c]\<rparr>]\<rparr>]"
  using assms by (auto simp: add_content_def Let_def upd_last_def append_content_def)

lemma sections_open_section:
  "sections (struct (open_section t st)) = sections (struct st) @ [\<lparr>sec_title = t, subsections = []\<rparr>]"
  by (simp add: open_section_def)

lemma call_add_content_sections:
  assumes "call_add_content c st = Inr st'"
  shows "add_content c (struct st) (current_section st) (current_subsection st) = Inr (struct st')"
    and "current_section st' = current_section st"
    and "current_subsection st' = current_subsection st"
  using assms by (auto simp: call_add_content_def split: sum.splits)

lemma call_add_content_not_open:
  "call_add_content c st \<noteq> Inr (open_section t st)"
proof
  assume a: "call_add_content c st = Inr (open_section t st)"
  note b = call_add_content_sections[OF a]
  have len: "length (sections (struct (open_section t st))) = Suc (length (sections (struct st)))"
    by (simp add: sections_open_section)
  from add_content_length[OF b(1)] len
  have e: "sections (struct st) = []" "current_section st = None" "current_subsection st = None"
    by (auto split: if_splits)
  from add_content_first[of c "struct st" "struct (open_section t st)"] b(1) e
  show False by (simp add: sections_open_section)
qed

lemma open_subsection_sections_length:
  assumes "open_subsection t' st = Inr st'"
  shows "length (sections (struct st')) = length (sections (struct st))"
  using assms by (auto simp: open_subsection_def Let_def split: option.splits if_splits)

lemma open_subsection_not_open:
  "open_subsection t' st \<noteq> Inr (open_section t st)"
proof
  assume a: "open_subsection t' st = Inr (open_section t st)"
  from open_subsection_sections_length[OF a] show False
    by (simp add: sections_open_section)
qed

lemma process_span_cases:
  assumes "strip (span_text sp) \<noteq> []"
  shows "process_span sp st =
          (if section_font sp then Inr (open_section (strip (span_text sp)) st)
           else if subsection_font sp \<and> current_section st \<noteq> None
                then open_subsection (strip (span_text sp)) st
                else call_add_content (Text (strip (span_text sp))) st)"
  using assms by (simp add: process_span_def Let_def section_font_def subsection_font_def)

text \<open>
  C1. A span with text left after stripping is taken as a section heading exactly when
  its size is above 16, or it is bold (bit 4 of its flags) and its size is above 12:
  \<open>process_span\<close> answers \<open>open_section\<close> of the stripped text in that case and in no
  other. \<open>open_section t\<close> appends the section \<open>t\<close> with no subsection, makes it the
  current section and clears the current subsection. The comparison is strict: size 16
  without bold is no heading, size 16.01 is one.
\<close>

theorem section_heading_rule:
  assumes "strip (span_text sp) \<noteq> []"
  shows "(process_span sp st = Inr (open_section (strip (span_text sp)) st)
            \<longleftrightarrow> span_size sp > 16 \<or> (span_flags sp AND 2 ^ 4 \<noteq> 0 \<and> span_size sp > 12)) \<and>
         struct (open_section t st) = (struct st)\<lparr>sections := sections (struct st) @
             [\<lparr>sec_title = t, subsections = []\<rparr>]\<rparr> \<and>
         current_section (open_section t st) = Some (length (sections (struct st))) \<and>
         sections (struct (open_section t st)) ! length (sections (struct st))
            = \<lparr>sec_title = t, subsections = []\<rparr> \<and>
         current_subsection (open_section t st) = None \<and>
         (span_size sp = 16 \<and> span_flags sp AND 2 ^ 4 = 0
            \<longrightarrow> process_span sp st \<noteq> Inr (open_section (strip (span_text sp)) st)) \<and>
         (span_size sp = 16.01
            \<longrightarrow> process_span sp st = Inr (open_section (strip (span_text sp)) st))"
proof -
  have iff: "process_span sp st = Inr (open_section (strip (span_text sp)) st) \<longleftrightarrow> section_font sp"
    using process_span_cases[OF assms, of st]
    by (simp add: call_add_content_not_open open_subsection_not_open)
  have a: "span_size sp = 16 \<and> span_flags sp AND 2 ^ 4 = 0 \<longrightarrow> \<not> section_font sp"
    by (simp add: section_font_def)
  have b: "span_size sp = 16.01 \<longrightarrow> section_font sp"
    by (simp add: section_font_def)
  have c: "struct (open_section t st) = (struct st)\<lparr>sections := sections (struct st) @
             [\<lparr>sec_title = t, subsections = []\<rparr>]\<rparr>"
    "current_section (open_section t st) = Some (length (sections (struct st)))"
    "sections (struct (open_section t st)) ! length (sections (struct st))
            = \<lparr>sec_title = t, subsections = []\<rparr>"
    "current_subsection (open_section t st) = None"
    by (simp_all add: open_section_def)
  from iff a b c show ?thesis
    unfolding section_font_def by blast
qed

theorem section_heading_rule_witness:
  "strip (span_text \<lparr>span_text = ''Intro'', span_size = 18, span_flags = 0\<rparr>) \<noteq> [] \<and>
   process_span \<lparr>span_text = ''Intro'', span_size = 18, span_flags = 0\<rparr> example_state
     = Inr (open_section ''Intro'' example_state) \<and>
   sections (struct (open_section ''Intro'' example_state))
     = [\<lparr>sec_title = ''Intro'',
          subsections = [\<lparr>sub_title = ''A'', content = [Text ''hello'']\<rparr>]\<rparr>,
        \<lparr>sec_title = ''Intro'', subsections = []\<rparr>] \<and>
   current_section (open_section ''Intro'' example_state) = Some 1 \<and>
   current_subsection (open_section ''Intro'' example_state) = None \<and>
   process_span \<lparr>span_text = ''Intro'', span_size = 16, span_flags = 0\<rparr> example_state
     \<noteq> Inr (open_section ''Intro'' example_state) \<and>
   process_span \<lparr>span_text = ''Intro'', span_size = 16.01, span_flags = 0\<rparr> example_state
     = Inr (open_section ''Intro'' example_state) \<and>
   process_span \<lparr>span_text = ''Intro'', span_size = 12.5, span_flags = 16\<rparr> example_state
     = Inr (open_section ''Intro'' example_state)"
  using section_heading_rule
    [of "\<lparr>span_text = ''Intro'', span_size = 18, span_flags = 0\<rparr>" example_state "''Intro''"]
    section_heading_rule
    [of "\<lparr>span_text = ''Intro'', span_size = 16, span_flags = 0\<rparr>" example_state "''Intro''"]
    section_heading_rule
    [of "\<lparr>span_text = ''Intro'', span_size = 16.01, span_flags = 0\<rparr>" example_state "''Intro''"]
    section_heading_rule
    [of "\<lparr>span_text = ''Intro'', span_size = 12.5, span_flags = 16\<rparr>" example_state "''Intro''"]
  by (simp add: strip_Intro example_state_def)

section \<open>Subsection headings\<close>

lemma add_content_no_dangling:
  assumes "valid_refs st"
  shows "add_content c (struct st) (current_section st) (current_subsection st) \<noteq> Inl DanglingRef"
proof (cases "current_subsection st")
  case (Some ij)
  obtain i j where ij: "ij = (i, j)" by (cases ij)
  from assms Some ij show ?thesis
    by (simp add: valid_refs_def add_content_def)
next
  case None
  note r2 = None
  show ?thesis
  proof (cases "current_section st")
    case (Some i)
    from assms r2 Some show ?thesis
      by (simp add: valid_refs_def add_content_def Let_def)
  next
    case None
    from r2 None show ?thesis
      by (simp add: add_content_def Let_def)
  qed
qed

lemma call_add_content_no_dangling:
  "valid_refs st \<Longrightarrow> call_add_content c st \<noteq> Inl DanglingRef"
  using add_content_no_dangling[of st c]
  by (auto simp: call_add_content_def split: sum.splits)

lemma open_subsection_Some:
  assumes "current_section st = Some i" "i < length (sections (struct st))"
  shows "open_subsection t st =
     Inr (st\<lparr>struct := (struct st)\<lparr>sections := (sections (struct st))
            [i := (sections (struct st) ! i)\<lparr>subsections :=
                 subsections (sections (struct st) ! i) @ [\<lparr>sub_title = t, content = []\<rparr>]\<rparr>]\<rparr>,
          current_subsection := Some (i, length (subsections (sections (struct st) ! i)))\<rparr>)"
  using assms by (simp add: open_subsection_def Let_def)

lemma open_subsection_not_add:
  assumes "valid_refs st"
  shows "open_subsection t st \<noteq> call_add_content c st"
proof (cases "current_section st")
  case None
  then have "open_subsection t st = Inl DanglingRef" by (simp add: open_subsection_def)
  with call_add_content_no_dangling[OF assms, of c] show ?thesis by simp
next
  case (Some i)
  with assms have i: "i < length (sections (struct st))" by (simp add: valid_refs_def)
  show ?thesis
  proof
    assume e: "open_subsection t st = call_add_content c st"
    from open_subsection_Some[OF Some i, of t] e obtain st' where
      st': "call_add_content c st = Inr st'"
      and cs: "current_subsection st' = Some (i, length (subsections (sections (struct st) ! i)))"
      by simp
    from call_add_content_sections(3)[OF st'] cs
    have "current_subsection st = Some (i, length (subsections (sections (struct st) ! i)))"
      by simp
    with assms show False by (simp add: valid_refs_def)
  qed
qed

lemma strip_Sub: "strip ''Sub'' = ''Sub''"
  by (simp add: strip_def is_space_def)

text \<open>
  C2. A span with text that is no section heading, in a state whose references name nodes
  of the tree, is taken as a subsection heading exactly when its size is above 14, or it
  is bold and its size is above 11, and a current section is set: \<open>process_span\<close> answers
  \<open>open_subsection\<close> of the stripped text in that case and in no other.
  \<open>open_subsection t\<close> appends the subsection \<open>t\<close> with no content to the current section
  and makes it the current subsection. With no current section, whatever the font, and
  with a font below the thresholds, the stripped text goes to \<open>_add_content\<close> as a plain
  string.
\<close>

theorem subsection_heading_rule:
  assumes "strip (span_text sp) \<noteq> []"
    and "\<not> (span_size sp > 16 \<or> (span_flags sp AND 2 ^ 4 \<noteq> 0 \<and> span_size sp > 12))"
    and "valid_refs st"
  shows "(process_span sp st = open_subsection (strip (span_text sp)) st
            \<longleftrightarrow> (span_size sp > 14 \<or> (span_flags sp AND 2 ^ 4 \<noteq> 0 \<and> span_size sp > 11))
                 \<and> current_section st \<noteq> None) \<and>
         (\<forall>i. current_section st = Some i \<longrightarrow>
            open_subsection t st =
              Inr (st\<lparr>struct := (struct st)\<lparr>sections := (sections (struct st))
                     [i := (sections (struct st) ! i)\<lparr>subsections :=
                        subsections (sections (struct st) ! i) @
                          [\<lparr>sub_title = t, content = []\<rparr>]\<rparr>]\<rparr>,
                   current_subsection :=
                     Some (i, length (subsections (sections (struct st) ! i)))\<rparr>)) \<and>
         (current_section st = None \<longrightarrow>
            process_span sp st = call_add_content (Text (strip (span_text sp))) st) \<and>
         (\<not> (span_size sp > 14 \<or> (span_flags sp AND 2 ^ 4 \<noteq> 0 \<and> span_size sp > 11)) \<longrightarrow>
            process_span sp st = call_add_content (Text (strip (span_text sp))) st)"
proof -
  from assms(2) have ns: "\<not> section_font sp" by (simp add: section_font_def)
  have cases: "process_span sp st =
          (if subsection_font sp \<and> current_section st \<noteq> None
           then open_subsection (strip (span_text sp)) st
           else call_add_content (Text (strip (span_text sp))) st)"
    using process_span_cases[OF assms(1), of st] ns by simp
  have iff: "process_span sp st = open_subsection (strip (span_text sp)) st
            \<longleftrightarrow> subsection_font sp \<and> current_section st \<noteq> None"
    using cases open_subsection_not_add[OF assms(3), of "strip (span_text sp)" "Text (strip (span_text sp))"]
    by (simp split: if_splits)
  have eff: "\<forall>i. current_section st = Some i \<longrightarrow>
            open_subsection t st =
              Inr (st\<lparr>struct := (struct st)\<lparr>sections := (sections (struct st))
                     [i := (sections (struct st) ! i)\<lparr>subsections :=
                        subsections (sections (struct st) ! i) @
                          [\<lparr>sub_title = t, content = []\<rparr>]\<rparr>]\<rparr>,
                   current_subsection :=
                     Some (i, length (subsections (sections (struct st) ! i)))\<rparr>)"
    using assms(3) by (auto simp: valid_refs_def intro: open_subsection_Some)
  have d1: "current_section st = None \<longrightarrow>
            process_span sp st = call_add_content (Text (strip (span_text sp))) st"
    using cases by simp
  have d2: "\<not> subsection_font sp \<longrightarrow>
            process_span sp st = call_add_content (Text (strip (span_text sp))) st"
    using cases by simp
  from iff eff d1 d2 show ?thesis
    unfolding subsection_font_def by blast
qed

theorem subsection_heading_rule_witness:
  "strip (span_text \<lparr>span_text = ''Sub'', span_size = 15, span_flags = 0\<rparr>) \<noteq> [] \<and>
   valid_refs example_state \<and> valid_refs empty_state \<and>
   process_span \<lparr>span_text = ''Sub'', span_size = 15, span_flags = 0\<rparr> example_state
     = Inr (example_state\<lparr>struct := (struct example_state)\<lparr>sections :=
              [\<lparr>sec_title = ''Intro'',
                 subsections = [\<lparr>sub_title = ''A'', content = [Text ''hello'']\<rparr>,
                                \<lparr>sub_title = ''Sub'', content = []\<rparr>]\<rparr>]\<rparr>,
            current_subsection := Some (0, 1)\<rparr>) \<and>
   process_span \<lparr>span_text = ''Sub'', span_size = 15, span_flags = 0\<rparr> empty_state
     = Inr (empty_state\<lparr>struct := (struct empty_state)\<lparr>sections :=
              [\<lparr>sec_title = ''Contenu principal'',
                 subsections = [\<lparr>sub_title = ''Introduction'', content = [Text ''Sub'']\<rparr>]\<rparr>]\<rparr>\<rparr>)"
  using subsection_heading_rule
      [of "\<lparr>span_text = ''Sub'', span_size = 15, span_flags = 0\<rparr>" example_state "''Sub''"]
    subsection_heading_rule
      [of "\<lparr>span_text = ''Sub'', span_size = 15, span_flags = 0\<rparr>" empty_state "''Sub''"]
  by (simp add: strip_Sub example_state_def empty_state_def valid_refs_def
        call_add_content_def add_content_def upd_last_def append_content_def)

section \<open>Where \<open>_add_content\<close> puts an item\<close>

text \<open>
  C3, with the title the code gives to the default subsection. With a current subsection
  that names a node, the item is appended to the content of that subsection. With none,
  and a current section that names a node: when the section has no subsection, it gets
  the one subsection \<open>Contenu\<close> holding the item; when it has some, the item is
  appended to the content of its last subsection.
\<close>

theorem attachment_under_section:
  "(i < length (sections s) \<and> j < length (subsections (sections s ! i)) \<longrightarrow>
      add_content c s r (Some (i, j)) =
        Inr (s\<lparr>sections := (sections s)
               [i := (sections s ! i)\<lparr>subsections := (subsections (sections s ! i))
                  [j := (subsections (sections s ! i) ! j)
                          \<lparr>content := content (subsections (sections s ! i) ! j) @ [c]\<rparr>]\<rparr>]\<rparr>)) \<and>
   (i < length (sections s) \<and> subsections (sections s ! i) = [] \<longrightarrow>
      add_content c s (Some i) None =
        Inr (s\<lparr>sections := (sections s)
               [i := (sections s ! i)\<lparr>subsections :=
                  [\<lparr>sub_title = ''Contenu'', content = [c]\<rparr>]\<rparr>]\<rparr>)) \<and>
   (i < length (sections s) \<and> subsections (sections s ! i) \<noteq> [] \<longrightarrow>
      add_content c s (Some i) None =
        Inr (s\<lparr>sections := (sections s)
               [i := (sections s ! i)\<lparr>subsections :=
                  butlast (subsections (sections s ! i)) @
                  [(last (subsections (sections s ! i)))
                     \<lparr>content := content (last (subsections (sections s ! i))) @ [c]\<rparr>]\<rparr>]\<rparr>))"
  by (simp add: add_content_def Let_def upd_last_def append_content_def)

theorem attachment_under_section_witness:
  "add_content (Text ''more'') (struct example_state) (Some 0) (Some (0, 0)) =
     Inr ((struct example_state)\<lparr>sections :=
        [\<lparr>sec_title = ''Intro'',
           subsections = [\<lparr>sub_title = ''A'', content = [Text ''hello'', Text ''more'']\<rparr>]\<rparr>]\<rparr>) \<and>
   add_content (Text ''hello'') heading_only (Some 0) None =
     Inr (heading_only\<lparr>sections :=
        [\<lparr>sec_title = ''Intro'',
           subsections = [\<lparr>sub_title = ''Contenu'', content = [Text ''hello'']\<rparr>]\<rparr>]\<rparr>) \<and>
   add_content (Text ''more'') (struct example_state) (Some 0) None =
     Inr ((struct example_state)\<lparr>sections :=
        [\<lparr>sec_title = ''Intro'',
           subsections = [\<lparr>sub_title = ''A'', content = [Text ''hello'', Text ''more'']\<rparr>]\<rparr>]\<rparr>)"
  using attachment_under_section [of 0 "struct example_state" 0 "Text ''more''" "Some 0"]
    attachment_under_section [of 0 heading_only 0 "Text ''hello''" "Some 0"]
  by (simp add: example_state_def heading_only_def)

text \<open>
  The default subsection is titled \<open>Contenu\<close>, not \<open>Content\<close>: a section with no
  subsection receives a string.
\<close>

theorem default_subsection_title_counterexample:
  "add_content (Text ''hello'') heading_only (Some 0) None =
     Inr (heading_only\<lparr>sections :=
        [\<lparr>sec_title = ''Intro'',
           subsections = [\<lparr>sub_title = ''Contenu'', content = [Text ''hello'']\<rparr>]\<rparr>]\<rparr>) \<and>
   ''Contenu'' \<noteq> ''Content''"
  by (simp add: add_content_def Let_def upd_last_def append_content_def heading_only_def)

text \<open>
  C4, with the title the code gives to the default section. With no current section and
  no current subsection: when the tree has no section, it gets the section
  \<open>Contenu principal\<close> with the one subsection \<open>Introduction\<close> holding the item; when it
  has sections and the last one has subsections, the item is appended to the content of
  the last subsection of the last section; whenever the tree has sections and the call
  returns, the titles of the sections and of their subsections are what they were, so no
  second default pair appears. Two items in a row that start from the empty tree end in
  the same subsection \<open>Introduction\<close>.
\<close>

theorem orphan_attachment:
  "(sections s = [] \<longrightarrow>
      add_content c s None None =
        Inr (s\<lparr>sections :=
               [\<lparr>sec_title = ''Contenu principal'',
                 subsections = [\<lparr>sub_title = ''Introduction'', content = [c]\<rparr>]\<rparr>]\<rparr>)) \<and>
   (sections s \<noteq> [] \<and> subsections (last (sections s)) \<noteq> [] \<longrightarrow>
      add_content c s None None =
        Inr (s\<lparr>sections := butlast (sections s) @
               [(last (sections s))\<lparr>subsections :=
                  butlast (subsections (last (sections s))) @
                  [(last (subsections (last (sections s))))
                     \<lparr>content := content (last (subsections (last (sections s)))) @ [c]\<rparr>]\<rparr>]\<rparr>)) \<and>
   (sections s \<noteq> [] \<and> add_content c s None None = Inr s' \<longrightarrow>
      map sec_title (sections s') = map sec_title (sections s) \<and>
      map (\<lambda>sec. map sub_title (subsections sec)) (sections s')
        = map (\<lambda>sec. map sub_title (subsections sec)) (sections s)) \<and>
   (sections (struct st) = [] \<and> current_section st = None \<and> current_subsection st = None \<longrightarrow>
      for_each call_add_content [c1, c2] st =
        Inr (st\<lparr>struct := (struct st)\<lparr>sections :=
               [\<lparr>sec_title = ''Contenu principal'',
                 subsections = [\<lparr>sub_title = ''Introduction'', content = [c1, c2]\<rparr>]\<rparr>]\<rparr>\<rparr>))"
proof -
  have a: "sections s = [] \<longrightarrow>
      add_content c s None None =
        Inr (s\<lparr>sections :=
               [\<lparr>sec_title = ''Contenu principal'',
                 subsections = [\<lparr>sub_title = ''Introduction'', content = [c]\<rparr>]\<rparr>]\<rparr>)"
    by (simp add: add_content_def Let_def upd_last_def append_content_def)
  have b: "sections s \<noteq> [] \<and> subsections (last (sections s)) \<noteq> [] \<longrightarrow>
      add_content c s None None =
        Inr (s\<lparr>sections := butlast (sections s) @
               [(last (sections s))\<lparr>subsections :=
                  butlast (subsections (last (sections s))) @
                  [(last (subsections (last (sections s))))
                     \<lparr>content := content (last (subsections (last (sections s)))) @ [c]\<rparr>]\<rparr>]\<rparr>)"
    by (simp add: add_content_def Let_def upd_last_def append_content_def)
  have c: "sections s \<noteq> [] \<and> add_content c s None None = Inr s' \<longrightarrow>
      map sec_title (sections s') = map sec_title (sections s) \<and>
      map (\<lambda>sec. map sub_title (subsections sec)) (sections s')
        = map (\<lambda>sec. map sub_title (subsections sec)) (sections s)"
  proof (intro impI, elim conjE)
    assume ne: "sections s \<noteq> []" and r: "add_content c s None None = Inr s'"
    show "map sec_title (sections s') = map sec_title (sections s) \<and>
      map (\<lambda>sec. map sub_title (subsections sec)) (sections s')
        = map (\<lambda>sec. map sub_title (subsections sec)) (sections s)"
    proof (cases "subsections (last (sections s)) = []")
      case True
      with ne r show ?thesis by (simp add: add_content_def Let_def)
    next
      case False
      have s1: "sections s = butlast (sections s) @ [last (sections s)]"
        using ne by simp
      have s2: "subsections (last (sections s)) =
          butlast (subsections (last (sections s))) @ [last (subsections (last (sections s)))]"
        using False by simp
      from b ne False r have s': "sections s' = butlast (sections s) @
               [(last (sections s))\<lparr>subsections :=
                  butlast (subsections (last (sections s))) @
                  [(last (subsections (last (sections s))))
                     \<lparr>content := content (last (subsections (last (sections s)))) @ [c]\<rparr>]\<rparr>]"
        by auto
      have t1: "map sec_title (sections s') = map sec_title (butlast (sections s) @ [last (sections s)])"
        unfolding s' by simp
      have t2: "map (\<lambda>sec. map sub_title (subsections sec)) (sections s')
          = map (\<lambda>sec. map sub_title (subsections sec)) (butlast (sections s) @ [last (sections s)])"
        unfolding s' by (simp, subst (2) s2, simp)
      from t1 t2 s1 show ?thesis by simp
    qed
  qed
  have d: "sections (struct st) = [] \<and> current_section st = None \<and> current_subsection st = None \<longrightarrow>
      for_each call_add_content [c1, c2] st =
        Inr (st\<lparr>struct := (struct st)\<lparr>sections :=
               [\<lparr>sec_title = ''Contenu principal'',
                 subsections = [\<lparr>sub_title = ''Introduction'', content = [c1, c2]\<rparr>]\<rparr>]\<rparr>\<rparr>)"
    by (simp add: call_add_content_def add_content_def Let_def upd_last_def append_content_def)
  from a b c d show ?thesis by blast
qed

lemma str_nat_1: "str_nat (Suc 0) = ''1''"
  by code_simp

lemma str_nat_2: "str_nat (Suc (Suc 0)) = ''2''"
  by code_simp

theorem orphan_attachment_witness:
  "sections (struct empty_state) = [] \<and>
   add_content (Table ''T1'' [''a''] [[''1'']]) (struct empty_state) None None =
     Inr ((struct empty_state)\<lparr>sections :=
        [\<lparr>sec_title = ''Contenu principal'',
          subsections = [\<lparr>sub_title = ''Introduction'',
                          content = [Table ''T1'' [''a''] [[''1'']]]\<rparr>]\<rparr>]\<rparr>) \<and>
   add_content (Text ''more'') (struct example_state) None None =
     Inr ((struct example_state)\<lparr>sections :=
        [\<lparr>sec_title = ''Intro'',
           subsections = [\<lparr>sub_title = ''A'', content = [Text ''hello'', Text ''more'']\<rparr>]\<rparr>]\<rparr>) \<and>
   for_each call_add_content [Table ''T1'' [''a''] [[''1'']], Text ''more''] empty_state =
     Inr (empty_state\<lparr>struct := (struct empty_state)\<lparr>sections :=
        [\<lparr>sec_title = ''Contenu principal'',
          subsections = [\<lparr>sub_title = ''Introduction'',
                          content = [Table ''T1'' [''a''] [[''1'']], Text ''more'']\<rparr>]\<rparr>]\<rparr>\<rparr>)"
  using orphan_attachment [of "struct empty_state" "Table ''T1'' [''a''] [[''1'']]" undefined
      empty_state "Table ''T1'' [''a''] [[''1'']]" "Text ''more''"]
    orphan_attachment [of "struct example_state" "Text ''more''"
      "(struct example_state)\<lparr>sections :=
        [\<lparr>sec_title = ''Intro'',
           subsections = [\<lparr>sub_title = ''A'', content = [Text ''hello'', Text ''more'']\<rparr>]\<rparr>]\<rparr>"
      empty_state "Text ''a''" "Text ''b''"]
  by (simp add: empty_state_def example_state_def)

text \<open>
  A document of one page with two tables and nothing else: both tables land in
  \<open>Contenu principal\<close> / \<open>Introduction\<close>; the section is not titled \<open>Main content\<close>.
\<close>

theorem default_pair_title_counterexample:
  "analyze_with_pymupdf ''now'' table_doc =
     Inr \<lparr>title = ''Report'',
          metadata = \<lparr>num_pages = 1, author = [], subject = [], extraction_date = ''now'',
                      extraction_method = ''PyMuPDF''\<rparr>,
          sections =
            [\<lparr>sec_title = ''Contenu principal'',
              subsections =
                [\<lparr>sub_title = ''Introduction'',
                  content = [Table ''Tableau 1 - Page 1'' [''a''] [[''1'']],
                             Table ''Tableau 2 - Page 1'' [''b''] []]\<rparr>]\<rparr>]\<rparr> \<and>
   ''Contenu principal'' \<noteq> ''Main content''"
  by (simp add: analyze_with_pymupdf_def resolve_title_def dict_get_def table_doc_def
        table_page_def initial_state_def process_page_def enumerate_eq_zip
        call_add_content_def add_content_def Let_def upd_last_def append_content_def
        table_data_def add_row_def cell_str_def str_nat_1 str_nat_2 upt_rec)

section \<open>The loops as one pass over a stream of primitives\<close>

lemma for_each_append:
  "for_each f (xs @ ys) st =
     (case for_each f xs st of Inl e \<Rightarrow> Inl e | Inr st' \<Rightarrow> for_each f ys st')"
  by (induction xs arbitrary: st) (auto split: sum.splits)

lemma for_each_concat:
  "for_each (\<lambda>x. for_each f (g x)) xs st = for_each f (concat (map g xs)) st"
  by (induction xs arbitrary: st) (auto simp: for_each_append split: sum.splits)

lemma for_each_map:
  "for_each (\<lambda>x. f (g x)) xs st = for_each f (map g xs) st"
  by (induction xs arbitrary: st) (auto split: sum.splits)

lemma process_span_primitive: "(\<lambda>sp. process_primitive (TextRun sp)) = process_span"
  by (rule ext)+ (simp add: process_primitive_def)

lemma process_block_primitives:
  "process_block n = (\<lambda>b. for_each process_primitive (block_primitives n b))"
proof (rule ext)+
  fix b st
  show "process_block n b st = for_each process_primitive (block_primitives n b) st"
  proof (cases b)
    case (TextBlock lines)
    have "for_each (\<lambda>line. for_each process_span line) lines st
          = for_each process_span (concat lines) st"
      using for_each_concat[of process_span "\<lambda>l. l" lines st] by simp
    also have "\<dots> = for_each process_primitive (map TextRun (concat lines)) st"
      using for_each_map[of process_primitive TextRun "concat lines" st]
      by (simp add: process_span_primitive)
    finally show ?thesis using TextBlock
      by (simp add: process_block_def block_primitives_def)
  next
    case (ImageBlock w h)
    then show ?thesis
      by (simp add: process_block_def block_primitives_def process_primitive_def split: sum.splits)
  next
    case OtherBlock
    then show ?thesis by (simp add: process_block_def block_primitives_def)
  qed
qed

lemma process_table_primitive:
  "(\<lambda>nt. call_add_content (table_data n (fst nt) (snd nt)))
     = (\<lambda>nt. process_primitive (TablePrim n (fst nt) (snd nt)))"
  by (rule ext)+ (simp add: process_primitive_def)

lemma process_page_primitives:
  "process_page = (\<lambda>np. for_each process_primitive (page_primitives np))"
proof (rule ext)+
  fix np st
  show "process_page np st = for_each process_primitive (page_primitives np) st"
    unfolding process_page_def page_primitives_def for_each_append
      process_block_primitives process_table_primitive
      for_each_concat for_each_map[of process_primitive "\<lambda>nt. TablePrim (fst np) (fst nt) (snd nt)"]
    by simp
qed

lemma process_pages_primitives:
  "for_each process_page (enumerate 0 (doc_pages doc)) st
     = for_each process_primitive (primitives doc) st"
  unfolding process_page_primitives primitives_def for_each_concat by simp

section \<open>The references stay on the last nodes\<close>

lemma add_content_at_sub:
  "i < length (sections s) \<Longrightarrow> j < length (subsections (sections s ! i)) \<Longrightarrow>
   add_content c s r (Some (i, j)) =
     Inr (s\<lparr>sections := (sections s)
            [i := (sections s ! i)\<lparr>subsections := (subsections (sections s ! i))
               [j := append_content c (subsections (sections s ! i) ! j)]\<rparr>]\<rparr>)"
  by (simp add: add_content_def)

lemma add_content_at_sec:
  "i < length (sections s) \<Longrightarrow>
   add_content c s (Some i) None =
     Inr (s\<lparr>sections := (sections s)
            [i := (sections s ! i)\<lparr>subsections := upd_last (append_content c)
               (if subsections (sections s ! i) = []
                then [\<lparr>sub_title = ''Contenu'', content = []\<rparr>]
                else subsections (sections s ! i))\<rparr>]\<rparr>)"
  by (simp add: add_content_def Let_def)

lemma add_content_orphan_first:
  "sections s = [] \<Longrightarrow>
   add_content c s None None =
     Inr (s\<lparr>sections :=
            [\<lparr>sec_title = ''Contenu principal'',
              subsections = [\<lparr>sub_title = ''Introduction'', content = [c]\<rparr>]\<rparr>]\<rparr>)"
  by (simp add: add_content_def Let_def upd_last_def append_content_def)

lemma add_content_orphan_later:
  "sections s \<noteq> [] \<Longrightarrow> subsections (last (sections s)) \<noteq> [] \<Longrightarrow>
   add_content c s None None =
     Inr (s\<lparr>sections := upd_last (\<lambda>sec. sec\<lparr>subsections :=
            upd_last (append_content c) (subsections sec)\<rparr>) (sections s)\<rparr>)"
  by (simp add: add_content_def Let_def)

lemma upd_last_nonempty: "upd_last f xs \<noteq> []"
  by (simp add: upd_last_def)

lemma last_upd_last: "last (upd_last f xs) = f (last xs)"
  by (simp add: upd_last_def)

lemma refs_open_section: "refs_at_end (open_section t st)"
  by (simp add: refs_at_end_def open_section_def)

lemma refs_open_subsection:
  assumes "refs_at_end st" "current_section st = Some i"
  shows "\<exists>st'. open_subsection t st = Inr st' \<and> refs_at_end st' \<and> current_section st' = Some i"
proof -
  from assms have i: "i < length (sections (struct st))"
    by (simp add: refs_at_end_def)
  from assms have e: "Suc i = length (sections (struct st))"
    by (simp add: refs_at_end_def)
  show ?thesis
    unfolding open_subsection_Some[OF assms(2) i]
    using assms(2) i e by (simp add: refs_at_end_def)
qed

lemma refs_call_add_content:
  assumes "refs_at_end st"
  shows "\<exists>st'. call_add_content c st = Inr st' \<and> refs_at_end st' \<and>
           current_section st' = current_section st \<and>
           current_subsection st' = current_subsection st"
proof (cases "current_section st")
  case None
  with assms have sub: "current_subsection st = None"
    and d: "sections (struct st) = [] \<or> subsections (last (sections (struct st))) \<noteq> []"
    by (simp_all add: refs_at_end_def)
  show ?thesis
  proof (cases "sections (struct st) = []")
    case True
    with None sub show ?thesis
      by (simp add: call_add_content_def add_content_orphan_first refs_at_end_def)
  next
    case False
    with d have "subsections (last (sections (struct st))) \<noteq> []" by simp
    with False None sub show ?thesis
      by (simp add: call_add_content_def add_content_orphan_later refs_at_end_def
            last_upd_last upd_last_nonempty)
  qed
next
  case (Some i)
  with assms have i: "i < length (sections (struct st))"
    and e: "Suc i = length (sections (struct st))"
    by (simp_all add: refs_at_end_def)
  show ?thesis
  proof (cases "current_subsection st")
    case None
    with Some i e show ?thesis
      by (simp add: call_add_content_def add_content_at_sec refs_at_end_def)
  next
    case (Some ij)
    obtain i' j where ij: "ij = (i', j)" by (cases ij)
    from assms \<open>current_section st = Some i\<close> Some ij
    have i': "i' = i" and j: "Suc j = length (subsections (sections (struct st) ! i))"
      by (simp_all add: refs_at_end_def)
    from j have j': "j < length (subsections (sections (struct st) ! i))" by simp
    from \<open>current_section st = Some i\<close> Some ij i' i e j j' show ?thesis
      by (simp add: call_add_content_def add_content_at_sub refs_at_end_def)
  qed
qed

lemma refs_process_span:
  assumes "refs_at_end st"
  shows "\<exists>st'. process_span sp st = Inr st' \<and> refs_at_end st'"
proof (cases "strip (span_text sp) = []")
  case True
  with assms show ?thesis by (simp add: process_span_def)
next
  case False
  note c = process_span_cases[OF False, of st]
  show ?thesis
  proof (cases "section_font sp")
    case True
    with c show ?thesis by (simp add: refs_open_section)
  next
    case False
    note nsec = False
    show ?thesis
    proof (cases "subsection_font sp \<and> current_section st \<noteq> None")
      case True
      then obtain i where i: "current_section st = Some i" by auto
      from refs_open_subsection[OF assms i, of "strip (span_text sp)"] c nsec True
      show ?thesis by auto
    next
      case False
      with c nsec have "process_span sp st = call_add_content (Text (strip (span_text sp))) st"
        by auto
      with refs_call_add_content[OF assms, of "Text (strip (span_text sp))"]
      show ?thesis by auto
    qed
  qed
qed

lemma refs_process_primitive:
  assumes "refs_at_end st"
  shows "\<exists>st'. process_primitive p st = Inr st' \<and> refs_at_end st'"
proof (cases p)
  case (TextRun sp)
  with refs_process_span[OF assms, of sp] show ?thesis
    by (simp add: process_primitive_def)
next
  case (ImagePrim n w h)
  with refs_call_add_content[OF assms, of "image_info n w h"] show ?thesis
    by (auto simp: process_primitive_def)
next
  case (TablePrim n k t)
  with refs_call_add_content[OF assms, of "table_data n k t"] show ?thesis
    by (auto simp: process_primitive_def)
qed

lemma refs_for_each:
  "refs_at_end st \<Longrightarrow> \<exists>st'. for_each process_primitive ps st = Inr st' \<and> refs_at_end st'"
proof (induction ps arbitrary: st)
  case Nil
  then show ?case by simp
next
  case (Cons p ps)
  from refs_process_primitive[OF Cons.prems, of p] obtain st1 where
    s1: "process_primitive p st = Inr st1" and r1: "refs_at_end st1" by auto
  from Cons.IH[OF r1] s1 show ?case by simp
qed

lemma refs_initial_state: "refs_at_end (initial_state now t doc)"
  by (simp add: refs_at_end_def initial_state_def)

lemma strip_hello: "strip ''hello'' = ''hello''"
  by (simp add: strip_def is_space_def)

lemma hello_run:
  "for_each process_primitive [TextRun hello_span] (initial_state ''now'' ''T'' blank_doc) =
     Inr hello_state"
  by (simp add: process_primitive_def process_span_def hello_span_def strip_hello
        call_add_content_def add_content_orphan_first initial_state_def hello_state_def)

text \<open>
  The states that the pass reaches have references that name nodes: the rules for
  headings and for \<open>_add_content\<close> above, stated for such states, hold all along a pass.
\<close>

lemma refs_at_end_valid: "refs_at_end st \<Longrightarrow> valid_refs st"
  by (auto simp: refs_at_end_def valid_refs_def split: option.splits)

lemma reachable_valid_refs:
  "for_each process_primitive ps (initial_state now t doc) = Inr st \<Longrightarrow> valid_refs st"
  using refs_for_each[OF refs_initial_state, of ps now t doc] refs_at_end_valid by auto

section \<open>The pass never raises\<close>

text \<open>
  C10. In every state that the pass reaches from the initial state, over any stream of
  primitives, with no current section and at least one section in the tree: no current
  subsection is set either, the last section has at least one subsection, and the call
  of \<open>_add_content\<close> from that state returns a structure; the double indexing
  \<open>structure["sections"][-1]["subsections"][-1]\<close> does not raise \<open>IndexError\<close>.
\<close>

theorem fallback_indexing_safe:
  assumes "for_each process_primitive ps (initial_state now t doc) = Inr st"
    and "current_section st = None"
    and "sections (struct st) \<noteq> []"
  shows "current_subsection st = None \<and>
         subsections (last (sections (struct st))) \<noteq> [] \<and>
         add_content c (struct st) (current_section st) (current_subsection st) \<noteq> Inl IndexError \<and>
         (\<exists>s'. add_content c (struct st) (current_section st) (current_subsection st) = Inr s')"
proof -
  from refs_for_each[OF refs_initial_state, of ps now t doc] assms(1)
  have r: "refs_at_end st" by auto
  from r assms(2,3) have a: "current_subsection st = None"
    and b: "subsections (last (sections (struct st))) \<noteq> []"
    by (simp_all add: refs_at_end_def)
  from refs_call_add_content[OF r, of c]
  have "\<exists>s'. add_content c (struct st) (current_section st) (current_subsection st) = Inr s'"
    by (auto simp: call_add_content_def split: sum.splits)
  with a b show ?thesis by auto
qed

theorem fallback_indexing_safe_witness:
  "for_each process_primitive [TextRun hello_span] (initial_state ''now'' ''T'' blank_doc) =
     Inr hello_state \<and>
   current_section hello_state = None \<and>
   sections (struct hello_state) \<noteq> [] \<and>
   subsections (last (sections (struct hello_state))) \<noteq> [] \<and>
   add_content (Text ''more'') (struct hello_state) None None \<noteq> Inl IndexError"
proof -
  have a: "current_section hello_state = None"
    by (simp add: hello_state_def initial_state_def)
  have b: "sections (struct hello_state) \<noteq> []"
    by (simp add: hello_state_def)
  from fallback_indexing_safe [OF hello_run a b, of "Text ''more''"]
  have "current_subsection hello_state = None \<and>
        subsections (last (sections (struct hello_state))) \<noteq> [] \<and>
        add_content (Text ''more'') (struct hello_state) (current_section hello_state)
          (current_subsection hello_state) \<noteq> Inl IndexError"
    by blast
  with a b hello_run show ?thesis by auto
qed

text \<open>
  From the initial state the loops return a state, over every stream of primitives and
  over the pages of every document; over the empty stream, and over a document with no
  primitive, they return the initial state, which has no section. The whole of
  \<open>_analyze_with_pymupdf\<close> returns a structure for every document that has a title in its
  metadata or at least one page.
\<close>

lemma inference_total:
  "(\<exists>st. for_each process_primitive ps (initial_state now t doc) = Inr st) \<and>
   (\<exists>st. for_each process_page (enumerate 0 (doc_pages doc)) (initial_state now t doc) = Inr st) \<and>
   for_each process_primitive [] (initial_state now t doc) = Inr (initial_state now t doc) \<and>
   sections (struct (initial_state now t doc)) = [] \<and>
   (primitives doc = [] \<longrightarrow>
      for_each process_page (enumerate 0 (doc_pages doc)) (initial_state now t doc)
        = Inr (initial_state now t doc)) \<and>
   (dict_get (doc_metadata doc) ''title'' [] \<noteq> [] \<or> doc_pages doc \<noteq> [] \<longrightarrow>
      (\<exists>s. analyze_with_pymupdf now doc = Inr s))"
proof -
  have a: "\<exists>st. for_each process_primitive ps (initial_state now t doc) = Inr st" for ps t
    using refs_for_each[OF refs_initial_state, of ps now t doc] by auto
  have b: "\<exists>st. for_each process_page (enumerate 0 (doc_pages doc)) (initial_state now t doc) = Inr st"
    for t
    unfolding process_pages_primitives by (rule a)
  have c: "primitives doc = [] \<longrightarrow>
      for_each process_page (enumerate 0 (doc_pages doc)) (initial_state now t doc)
        = Inr (initial_state now t doc)"
    unfolding process_pages_primitives by simp
  have d: "dict_get (doc_metadata doc) ''title'' [] \<noteq> [] \<or> doc_pages doc \<noteq> [] \<longrightarrow>
      (\<exists>s. analyze_with_pymupdf now doc = Inr s)"
  proof
    assume h: "dict_get (doc_metadata doc) ''title'' [] \<noteq> [] \<or> doc_pages doc \<noteq> []"
    then have "\<exists>t'. resolve_title doc = Inr t'"
      by (cases "doc_pages doc") (auto simp: resolve_title_def Let_def)
    then obtain t' where t': "resolve_title doc = Inr t'" ..
    from b[of t'] obtain st where
      "for_each process_page (enumerate 0 (doc_pages doc)) (initial_state now t' doc) = Inr st"
      by auto
    with t' show "\<exists>s. analyze_with_pymupdf now doc = Inr s"
      by (simp add: analyze_with_pymupdf_def)
  qed
  from a[of ps t] b[of t] c d show ?thesis
    by (simp add: initial_state_def)
qed

lemma primitives_blank_doc: "primitives blank_doc = []"
  by (simp add: primitives_def blank_doc_def page_primitives_def block_primitives_def
        enumerate_eq_zip upt_rec)

lemma inference_total_witness:
  "primitives blank_doc = [] \<and> doc_pages blank_doc \<noteq> [] \<and>
   for_each process_page (enumerate 0 (doc_pages blank_doc)) (initial_state ''now'' ''T'' blank_doc)
     = Inr (initial_state ''now'' ''T'' blank_doc) \<and>
   sections (struct (initial_state ''now'' ''T'' blank_doc)) = [] \<and>
   (\<exists>s. analyze_with_pymupdf ''now'' blank_doc = Inr s)"
  using inference_total [of "[]" "''now''" "''T''" blank_doc]
  by (simp add: primitives_blank_doc) (simp add: blank_doc_def)

text \<open>
  C5. For every sequence of primitives, the empty one included, a document is to come
  back and nothing is to be raised. The code does not do so on the document with no page
  and no title in its metadata, whose sequence of primitives is empty: before the loops
  start, the title is looked up in the first page, \<open>doc[0]\<close>, which raises \<open>IndexError\<close>;
  the placeholder \<open>Document sans titre\<close> of the next line is not reached. This is the
  one input on which \<open>_analyze_with_pymupdf\<close> raises: it raises exactly when the document
  has no page and no title that is not empty.
\<close>

theorem untitled_pageless_document_raises:
  "primitives empty_doc = [] \<and>
   resolve_title empty_doc = Inl IndexError \<and>
   analyze_with_pymupdf now empty_doc = Inl IndexError \<and>
   ((\<exists>e. analyze_with_pymupdf now doc = Inl e) \<longleftrightarrow>
      dict_get (doc_metadata doc) ''title'' [] = [] \<and> doc_pages doc = []) \<and>
   ((\<exists>e. analyze_with_pymupdf now doc = Inl e) \<longleftrightarrow>
      analyze_with_pymupdf now doc = Inl IndexError)"
proof -
  have a: "primitives empty_doc = []"
    by (simp add: primitives_def empty_doc_def enumerate_eq_zip)
  have b: "resolve_title empty_doc = Inl IndexError"
    by (simp add: resolve_title_def dict_get_def empty_doc_def)
  have c: "analyze_with_pymupdf now empty_doc = Inl IndexError"
    by (simp add: analyze_with_pymupdf_def b)
  have raises: "analyze_with_pymupdf now doc = Inl IndexError"
    if "dict_get (doc_metadata doc) ''title'' [] = [] \<and> doc_pages doc = []"
    using that by (simp add: analyze_with_pymupdf_def resolve_title_def)
  have returns: "\<exists>s. analyze_with_pymupdf now doc = Inr s"
    if "\<not> (dict_get (doc_metadata doc) ''title'' [] = [] \<and> doc_pages doc = [])"
    using that inference_total[of "[]" now "[]" doc] by blast
  have d: "(\<exists>e. analyze_with_pymupdf now doc = Inl e) \<longleftrightarrow>
      dict_get (doc_metadata doc) ''title'' [] = [] \<and> doc_pages doc = []"
    using raises returns by (cases "analyze_with_pymupdf now doc") auto
  have e: "(\<exists>e. analyze_with_pymupdf now doc = Inl e) \<longleftrightarrow>
      analyze_with_pymupdf now doc = Inl IndexError"
    using raises d by blast
  from a b c d e show ?thesis by blast
qed

section \<open>The title of the document\<close>

lemma add_content_title:
  assumes "add_content c s r1 r2 = Inr s'"
  shows "title s' = title s \<and> metadata s' = metadata s"
proof (cases r2)
  case (Some ij)
  obtain i j where ij: "ij = (i, j)" by (cases ij)
  from assms Some ij show ?thesis
    by (cases "i < length (sections s) \<and> j < length (subsections (sections s ! i))")
       (auto simp: add_content_def)
next
  case None
  note r2 = None
  show ?thesis
  proof (cases r1)
    case (Some i)
    from assms r2 Some show ?thesis
      by (cases "i < length (sections s)") (auto simp: add_content_def Let_def)
  next
    case None
    from assms r2 None show ?thesis
      by (cases "subsections (last (if sections s = []
                           then sections s @
                             [\<lparr>sec_title = ''Contenu principal'',
                               subsections = [\<lparr>sub_title = ''Introduction'', content = []\<rparr>]\<rparr>]
                           else sections s)) = []")
         (auto simp: add_content_def Let_def)
  qed
qed

lemma call_add_content_title:
  assumes "call_add_content c st = Inr st'"
  shows "title (struct st') = title (struct st) \<and> metadata (struct st') = metadata (struct st)"
  using add_content_title[OF call_add_content_sections(1)[OF assms]] .

lemma open_section_title:
  "title (struct (open_section t st)) = title (struct st) \<and>
   metadata (struct (open_section t st)) = metadata (struct st)"
  by (simp add: open_section_def)

lemma open_subsection_title:
  assumes "open_subsection t st = Inr st'"
  shows "title (struct st') = title (struct st) \<and> metadata (struct st') = metadata (struct st)"
  using assms by (auto simp: open_subsection_def Let_def split: option.splits if_splits)

lemma process_span_title:
  assumes "process_span sp st = Inr st'"
  shows "title (struct st') = title (struct st) \<and> metadata (struct st') = metadata (struct st)"
proof (cases "strip (span_text sp) = []")
  case True
  with assms show ?thesis by (simp add: process_span_def)
next
  case False
  from process_span_cases[OF False, of st] assms show ?thesis
    by (auto simp: open_section_title split: if_splits
          dest: open_subsection_title[OF sym] call_add_content_title[OF sym])
qed

lemma process_primitive_title:
  assumes "process_primitive p st = Inr st'"
  shows "title (struct st') = title (struct st) \<and> metadata (struct st') = metadata (struct st)"
  using assms
  by (cases p) (auto simp: process_primitive_def dest: process_span_title call_add_content_title)

lemma for_each_title:
  "for_each process_primitive ps st = Inr st' \<Longrightarrow>
   title (struct st') = title (struct st) \<and> metadata (struct st') = metadata (struct st)"
proof (induction ps arbitrary: st)
  case Nil
  then show ?case by simp
next
  case (Cons p ps)
  from Cons.prems obtain st1 where s1: "process_primitive p st = Inr st1"
    and s2: "for_each process_primitive ps st1 = Inr st'"
    by (auto split: sum.splits)
  from Cons.IH[OF s2] process_primitive_title[OF s1] show ?case by simp
qed

text \<open>
  C7, as the code resolves the title. A title in the metadata that is not empty is the
  title. With none, or an empty one, and a first page: when the plain text of the first
  page is not empty, the title is its first 100 characters up to the first line break;
  when it is empty, the title is \<open>Document sans titre\<close>. The pass does not change the
  title, so the structure that \<open>_analyze_with_pymupdf\<close> returns carries it.
\<close>

theorem title_resolution:
  "(doc_metadata doc ''title'' = Some t \<and> t \<noteq> [] \<longrightarrow> resolve_title doc = Inr t) \<and>
   ((doc_metadata doc ''title'' = None \<or> doc_metadata doc ''title'' = Some []) \<and>
    doc_pages doc = pg # pgs \<and> page_text pg \<noteq> [] \<longrightarrow>
      resolve_title doc = Inr (takeWhile (\<lambda>c. c \<noteq> CHR 0x0A) (take 100 (page_text pg)))) \<and>
   ((doc_metadata doc ''title'' = None \<or> doc_metadata doc ''title'' = Some []) \<and>
    doc_pages doc = pg # pgs \<and> page_text pg = [] \<longrightarrow>
      resolve_title doc = Inr ''Document sans titre'') \<and>
   (analyze_with_pymupdf now doc = Inr s \<longrightarrow> resolve_title doc = Inr (title s))"
proof -
  have a: "doc_metadata doc ''title'' = Some t \<and> t \<noteq> [] \<longrightarrow> resolve_title doc = Inr t"
    by (simp add: resolve_title_def dict_get_def)
  have b: "(doc_metadata doc ''title'' = None \<or> doc_metadata doc ''title'' = Some []) \<and>
    doc_pages doc = pg # pgs \<and> page_text pg \<noteq> [] \<longrightarrow>
      resolve_title doc = Inr (takeWhile (\<lambda>c. c \<noteq> CHR 0x0A) (take 100 (page_text pg)))"
    by (auto simp: resolve_title_def dict_get_def first_line_def Let_def)
  have c: "(doc_metadata doc ''title'' = None \<or> doc_metadata doc ''title'' = Some []) \<and>
    doc_pages doc = pg # pgs \<and> page_text pg = [] \<longrightarrow>
      resolve_title doc = Inr ''Document sans titre''"
    by (auto simp: resolve_title_def dict_get_def first_line_def Let_def)
  have d: "analyze_with_pymupdf now doc = Inr s \<longrightarrow> resolve_title doc = Inr (title s)"
  proof
    assume h: "analyze_with_pymupdf now doc = Inr s"
    then obtain t' st where t': "resolve_title doc = Inr t'"
      and st: "for_each process_page (enumerate 0 (doc_pages doc)) (initial_state now t' doc) = Inr st"
      and s: "s = struct st"
      by (auto simp: analyze_with_pymupdf_def split: sum.splits)
    from st have "title (struct st) = title (struct (initial_state now t' doc))"
      unfolding process_pages_primitives by (simp add: for_each_title)
    then have "title s = t'" using s by (simp add: initial_state_def)
    with t' show "resolve_title doc = Inr (title s)" by simp
  qed
  from a b c d show ?thesis by blast
qed

theorem title_resolution_witness:
  "resolve_title titled_doc = Inr ''Report'' \<and>
   resolve_title two_line_doc = Inr ''Annual'' \<and>
   resolve_title late_text_doc = Inr ''Document sans titre'' \<and>
   analyze_with_pymupdf ''now'' blank_doc =
     Inr \<lparr>title = ''Document sans titre'',
          metadata = \<lparr>num_pages = 1, author = [], subject = [], extraction_date = ''now'',
                      extraction_method = ''PyMuPDF''\<rparr>,
          sections = []\<rparr>"
proof -
  have e: "analyze_with_pymupdf ''now'' blank_doc =
     Inr \<lparr>title = ''Document sans titre'',
          metadata = \<lparr>num_pages = 1, author = [], subject = [], extraction_date = ''now'',
                      extraction_method = ''PyMuPDF''\<rparr>,
          sections = []\<rparr>"
    by (simp add: analyze_with_pymupdf_def resolve_title_def dict_get_def blank_doc_def
          initial_state_def process_page_def process_block_def enumerate_eq_zip upt_rec)
  from title_resolution [of titled_doc "''Report''" "hd (doc_pages titled_doc)" "[]" "''now''" undefined]
    title_resolution [of two_line_doc "[]" "hd (doc_pages two_line_doc)" "[]" "''now''" undefined]
    title_resolution [of late_text_doc "[]" "hd (doc_pages late_text_doc)"
      "tl (doc_pages late_text_doc)" "''now''" undefined]
    title_resolution [of blank_doc "[]" "hd (doc_pages blank_doc)" "[]" "''now''"
      "\<lparr>title = ''Document sans titre'',
          metadata = \<lparr>num_pages = 1, author = [], subject = [], extraction_date = ''now'',
                      extraction_method = ''PyMuPDF''\<rparr>,
          sections = []\<rparr>"]
    e
  show ?thesis
    by (simp add: titled_doc_def two_line_doc_def late_text_doc_def blank_doc_def)
qed

text \<open>
  A document whose first page is blank and whose second page holds the text run
  \<open>hello\<close>: the title is neither taken from that first text run nor
  \<open>Untitled document\<close>; it is \<open>Document sans titre\<close>.
\<close>

theorem title_from_first_page_counterexample:
  "primitives late_text_doc = [TextRun hello_span] \<and>
   analyze_with_pymupdf ''now'' late_text_doc =
     Inr \<lparr>title = ''Document sans titre'',
          metadata = \<lparr>num_pages = 2, author = [], subject = [], extraction_date = ''now'',
                      extraction_method = ''PyMuPDF''\<rparr>,
          sections =
            [\<lparr>sec_title = ''Contenu principal'',
              subsections = [\<lparr>sub_title = ''Introduction'', content = [Text ''hello'']\<rparr>]\<rparr>]\<rparr> \<and>
   ''Document sans titre'' \<noteq> ''hello'' \<and>
   ''Document sans titre'' \<noteq> ''Untitled document''"
  by (simp add: analyze_with_pymupdf_def resolve_title_def dict_get_def late_text_doc_def
        initial_state_def process_page_def process_block_def enumerate_eq_zip upt_rec
        primitives_def page_primitives_def block_primitives_def
        process_span_def hello_span_def strip_hello call_add_content_def
        add_content_orphan_first)

section \<open>The outline of the tree: titles of sections and of their subsections\<close>

lemma nth_is_last: "Suc i = length xs \<Longrightarrow> xs ! i = last xs"
proof -
  assume a: "Suc i = length xs"
  then have "i = length xs - 1" and "xs \<noteq> []" by auto
  then show ?thesis by (simp add: last_conv_nth)
qed

lemma list_update_upd_last:
  "Suc i = length xs \<Longrightarrow> xs[i := f (xs ! i)] = upd_last f xs"
proof -
  assume a: "Suc i = length xs"
  then have ne: "xs \<noteq> []" by auto
  from a have l: "length (butlast xs) = i" by simp
  have x: "xs = butlast xs @ [last xs]" using ne by simp
  have n: "xs ! i = last xs" using a by (rule nth_is_last)
  have "(butlast xs @ [last xs])[i := f (last xs)] = butlast xs @ [f (last xs)]"
    using l by (simp add: list_update_append)
  with x n show ?thesis by (simp add: upd_last_def)
qed

lemma map_upd_last:
  "xs \<noteq> [] \<Longrightarrow> g (f (last xs)) = h (g (last xs)) \<Longrightarrow>
   map g (upd_last f xs) = upd_last h (map g xs)"
  by (simp add: upd_last_def map_butlast last_map)

lemma upd_last_snoc: "upd_last f (xs @ [x]) = xs @ [f x]"
  by (simp add: upd_last_def)

lemma upd_last_upd_last: "upd_last f (upd_last g xs) = upd_last (\<lambda>x. f (g x)) xs"
  by (simp add: upd_last_def)

lemma upd_last_same: "xs \<noteq> [] \<Longrightarrow> f (last xs) = last xs \<Longrightarrow> upd_last f xs = xs"
  by (simp add: upd_last_def)

lemma upd_last_cong:
  "f (last xs) = g (last xs) \<Longrightarrow> upd_last f xs = upd_last g xs"
  by (simp add: upd_last_def)

lemma sub_titles_append_content:
  "xs \<noteq> [] \<Longrightarrow> map sub_title (upd_last (append_content c) xs) = map sub_title xs"
proof -
  assume ne: "xs \<noteq> []"
  have "map sub_title (upd_last (append_content c) xs)
        = map sub_title (butlast xs) @ [sub_title (last xs)]"
    by (simp add: upd_last_def append_content_def)
  also have "\<dots> = map sub_title (butlast xs @ [last xs])" by simp
  finally show ?thesis using ne by simp
qed

lemma section_outline_attach:
  "section_outline (sec\<lparr>subsections := upd_last (append_content c)
       (if subsections sec = []
        then [\<lparr>sub_title = ''Contenu'', content = []\<rparr>]
        else subsections sec)\<rparr>)
     = (fst (section_outline sec),
        if snd (section_outline sec) = [] then [''Contenu''] else snd (section_outline sec))"
proof (cases "subsections sec = []")
  case True
  then show ?thesis
    by (simp add: section_outline_def upd_last_def append_content_def)
next
  case False
  then show ?thesis
    by (simp add: section_outline_def sub_titles_append_content)
qed

lemma outline_open_section:
  "outline (struct (open_section t st)) = outline (struct st) @ [(t, [])]"
  by (simp add: outline_def open_section_def section_outline_def)

lemma outline_nonempty:
  "refs_at_end st \<Longrightarrow> current_section st = Some i \<Longrightarrow> outline (struct st) \<noteq> []"
  by (auto simp: refs_at_end_def outline_def)

lemma outline_open_subsection:
  assumes "refs_at_end st" "current_section st = Some i" "open_subsection t st = Inr st'"
  shows "outline (struct st') = upd_last (\<lambda>x. (fst x, snd x @ [t])) (outline (struct st))"
proof -
  from assms have e: "Suc i = length (sections (struct st))"
    by (simp add: refs_at_end_def)
  then have i: "i < length (sections (struct st))" and ne: "sections (struct st) \<noteq> []"
    by auto
  let ?f = "\<lambda>sec. sec\<lparr>subsections := subsections sec @ [\<lparr>sub_title = t, content = []\<rparr>]\<rparr>"
  from assms(3) open_subsection_Some[OF assms(2) i, of t]
  have "sections (struct st') = (sections (struct st))[i := ?f (sections (struct st) ! i)]"
    by auto
  then have s: "sections (struct st') = upd_last ?f (sections (struct st))"
    using list_update_upd_last[OF e, of ?f] by simp
  show ?thesis
    unfolding outline_def s
    by (rule map_upd_last[OF ne]) (simp add: section_outline_def)
qed

lemma outline_add_content_open:
  assumes "refs_at_end st" "current_section st = Some i" "call_add_content c st = Inr st'"
  shows "outline (struct st') =
           upd_last (\<lambda>x. (fst x, if snd x = [] then [''Contenu''] else snd x))
             (outline (struct st))"
proof -
  from assms have e: "Suc i = length (sections (struct st))"
    by (simp add: refs_at_end_def)
  then have i: "i < length (sections (struct st))" and ne: "sections (struct st) \<noteq> []"
    by auto
  have n: "sections (struct st) ! i = last (sections (struct st))"
    using e by (rule nth_is_last)
  note r = call_add_content_sections(1)[OF assms(3)]
  show ?thesis
  proof (cases "current_subsection st")
    case None
    let ?f = "\<lambda>sec. sec\<lparr>subsections := upd_last (append_content c)
               (if subsections sec = []
                then [\<lparr>sub_title = ''Contenu'', content = []\<rparr>]
                else subsections sec)\<rparr>"
    from r None assms(2) add_content_at_sec[OF i, of c]
    have "struct st' = (struct st)\<lparr>sections := (sections (struct st))[i := ?f (sections (struct st) ! i)]\<rparr>"
      by simp
    then have "sections (struct st') = (sections (struct st))[i := ?f (sections (struct st) ! i)]"
      by simp
    then have s: "sections (struct st') = upd_last ?f (sections (struct st))"
      using list_update_upd_last[OF e, of ?f] by simp
    show ?thesis
      unfolding outline_def s
      by (rule map_upd_last[OF ne]) (rule section_outline_attach)
  next
    case (Some ij)
    obtain i' j where ij: "ij = (i', j)" by (cases ij)
    from assms(1,2) Some ij
    have i': "i' = i" and j: "Suc j = length (subsections (sections (struct st) ! i))"
      by (simp_all add: refs_at_end_def)
    from j have j': "j < length (subsections (sections (struct st) ! i))" by simp
    from j have sne: "subsections (last (sections (struct st))) \<noteq> []"
      using n by auto
    let ?f = "\<lambda>sec. sec\<lparr>subsections := upd_last (append_content c) (subsections sec)\<rparr>"
    from r Some ij i' add_content_at_sub[OF i j', of c]
    have "struct st' = (struct st)\<lparr>sections := (sections (struct st))
            [i := (sections (struct st) ! i)\<lparr>subsections := (subsections (sections (struct st) ! i))
               [j := append_content c (subsections (sections (struct st) ! i) ! j)]\<rparr>]\<rparr>"
      by simp
    then have "sections (struct st') = (sections (struct st))
            [i := (sections (struct st) ! i)\<lparr>subsections := (subsections (sections (struct st) ! i))
               [j := append_content c (subsections (sections (struct st) ! i) ! j)]\<rparr>]"
      by simp
    also have "(subsections (sections (struct st) ! i))
               [j := append_content c (subsections (sections (struct st) ! i) ! j)]
          = upd_last (append_content c) (subsections (sections (struct st) ! i))"
      by (rule list_update_upd_last[OF j])
    finally have "sections (struct st') = (sections (struct st))[i := ?f (sections (struct st) ! i)]" .
    then have s: "sections (struct st') = upd_last ?f (sections (struct st))"
      using list_update_upd_last[OF e, of ?f] by simp
    show ?thesis
      unfolding outline_def s
      by (rule map_upd_last[OF ne])
         (simp add: section_outline_def sub_titles_append_content[OF sne] sne)
  qed
qed

lemma outline_add_content_orphan:
  assumes "refs_at_end st" "current_section st = None" "call_add_content c st = Inr st'"
  shows "outline (struct st') =
           (if outline (struct st) = [] then [(''Contenu principal'', [''Introduction''])]
            else outline (struct st))"
proof -
  from assms(1,2) have sub: "current_subsection st = None"
    and d: "sections (struct st) = [] \<or> subsections (last (sections (struct st))) \<noteq> []"
    by (simp_all add: refs_at_end_def)
  note r = call_add_content_sections(1)[OF assms(3)]
  show ?thesis
  proof (cases "sections (struct st) = []")
    case True
    from r assms(2) sub add_content_orphan_first[OF True, of c]
    have "struct st' = (struct st)\<lparr>sections :=
            [\<lparr>sec_title = ''Contenu principal'',
              subsections = [\<lparr>sub_title = ''Introduction'', content = [c]\<rparr>]\<rparr>]\<rparr>"
      by simp
    then have "sections (struct st') =
            [\<lparr>sec_title = ''Contenu principal'',
              subsections = [\<lparr>sub_title = ''Introduction'', content = [c]\<rparr>]\<rparr>]"
      by simp
    with True show ?thesis
      by (simp add: outline_def section_outline_def)
  next
    case False
    with d have sne: "subsections (last (sections (struct st))) \<noteq> []" by simp
    let ?f = "\<lambda>sec. sec\<lparr>subsections := upd_last (append_content c) (subsections sec)\<rparr>"
    from r assms(2) sub add_content_orphan_later[OF False sne, of c]
    have "struct st' = (struct st)\<lparr>sections := upd_last ?f (sections (struct st))\<rparr>"
      by simp
    then have s: "sections (struct st') = upd_last ?f (sections (struct st))" by simp
    have "map section_outline (upd_last ?f (sections (struct st)))
          = upd_last (\<lambda>x. x) (map section_outline (sections (struct st)))"
      by (rule map_upd_last[OF False])
         (simp add: section_outline_def sub_titles_append_content[OF sne])
    also have "\<dots> = map section_outline (sections (struct st))"
      using False by (simp add: upd_last_same)
    finally show ?thesis using False by (simp add: outline_def s)
  qed
qed

section \<open>What each kind of primitive does\<close>

lemma skipped_not_heading: "is_skipped p \<Longrightarrow> \<not> is_section_heading p"
  by (cases p) (simp_all add: is_skipped_def is_section_heading_def)

lemma skipped_not_subsection: "is_skipped p \<Longrightarrow> \<not> has_subsection_font p"
  by (cases p) (simp_all add: is_skipped_def has_subsection_font_def)

lemma subsection_not_heading: "has_subsection_font p \<Longrightarrow> \<not> is_section_heading p"
  by (cases p) (simp_all add: has_subsection_font_def is_section_heading_def)

lemma subsection_not_skipped: "has_subsection_font p \<Longrightarrow> \<not> is_skipped p"
  by (cases p) (simp_all add: has_subsection_font_def is_skipped_def)

lemma step_skipped: "is_skipped p \<Longrightarrow> process_primitive p st = Inr st"
  by (cases p) (simp_all add: is_skipped_def process_primitive_def process_span_def)

lemma step_section:
  "is_section_heading p \<Longrightarrow> process_primitive p st = Inr (open_section (heading_title p) st)"
  by (cases p)
     (simp_all add: is_section_heading_def heading_title_def process_primitive_def
        process_span_cases)

lemma step_subsection:
  "has_subsection_font p \<Longrightarrow> current_section st = Some i \<Longrightarrow>
   process_primitive p st = open_subsection (heading_title p) st"
  by (cases p)
     (simp_all add: has_subsection_font_def heading_title_def process_primitive_def
        process_span_cases)

lemma step_content:
  assumes "\<not> is_skipped p" "\<not> is_section_heading p"
    and "\<not> has_subsection_font p \<or> current_section st = None"
  shows "\<exists>c. process_primitive p st = call_add_content c st"
proof (cases p)
  case (TextRun sp)
  with assms have ne: "strip (span_text sp) \<noteq> []" and ns: "\<not> section_font sp"
    and nb: "\<not> subsection_font sp \<or> current_section st = None"
    by (auto simp: is_skipped_def is_section_heading_def has_subsection_font_def)
  from process_span_cases[OF ne, of st] ns nb TextRun show ?thesis
    by (auto simp: process_primitive_def)
next
  case (ImagePrim n w h)
  then show ?thesis by (auto simp: process_primitive_def)
next
  case (TablePrim n k t)
  then show ?thesis by (auto simp: process_primitive_def)
qed

lemma subsection_titles_Nil: "subsection_titles e [] = []"
  by (simp add: subsection_titles_def needs_default_def)

lemma subsection_titles_skip:
  "is_skipped p \<Longrightarrow> subsection_titles e (p # seg) = subsection_titles e seg"
  by (simp add: subsection_titles_def needs_default_def skipped_not_subsection)

lemma subsection_titles_sub:
  "has_subsection_font p \<Longrightarrow>
   subsection_titles e (p # seg) = heading_title p # subsection_titles False seg"
  by (simp add: subsection_titles_def needs_default_def subsection_not_skipped)

lemma subsection_titles_body:
  "\<not> is_skipped p \<Longrightarrow> \<not> has_subsection_font p \<Longrightarrow>
   subsection_titles e (p # seg) = (if e then [''Contenu''] else []) @ subsection_titles False seg"
  by (simp add: subsection_titles_def needs_default_def)

lemma heading_groups_titles:
  "map fst (heading_groups ps) = map heading_title (filter is_section_heading ps)"
  by (induction ps) simp_all

section \<open>The outline after a pass\<close>

lemma run_open:
  "refs_at_end st \<Longrightarrow> current_section st = Some i \<Longrightarrow>
   \<exists>st'. for_each process_primitive ps st = Inr st' \<and>
     outline (struct st') =
       upd_last (\<lambda>x. (fst x, snd x @ subsection_titles (snd x = [])
                   (takeWhile (\<lambda>q. \<not> is_section_heading q) ps))) (outline (struct st))
       @ map group_outline (heading_groups ps)"
proof (induction ps arbitrary: st i)
  case Nil
  from outline_nonempty[OF Nil] show ?case
    by (simp add: subsection_titles_Nil upd_last_same)
next
  case (Cons p ps)
  let ?tw = "takeWhile (\<lambda>q. \<not> is_section_heading q) ps"
  consider (skip) "is_skipped p" | (sec) "is_section_heading p" | (sub) "has_subsection_font p"
    | (body) "\<not> is_skipped p" "\<not> is_section_heading p" "\<not> has_subsection_font p"
    by blast
  then show ?case
  proof cases
    case skip
    from Cons.IH[OF Cons.prems] obtain st' where
      run: "for_each process_primitive ps st = Inr st'"
      and o: "outline (struct st') =
        upd_last (\<lambda>x. (fst x, snd x @ subsection_titles (snd x = []) ?tw)) (outline (struct st))
        @ map group_outline (heading_groups ps)"
      by blast
    from run o show ?thesis
      by (simp add: step_skipped[OF skip] skipped_not_heading[OF skip]
            subsection_titles_skip[OF skip])
  next
    case sec
    let ?st1 = "open_section (heading_title p) st"
    have r1: "refs_at_end ?st1" by (rule refs_open_section)
    have c1: "current_section ?st1 = Some (length (sections (struct st)))"
      by (simp add: open_section_def)
    from Cons.IH[OF r1 c1] obtain st' where
      run: "for_each process_primitive ps ?st1 = Inr st'"
      and o: "outline (struct st') =
        upd_last (\<lambda>x. (fst x, snd x @ subsection_titles (snd x = []) ?tw)) (outline (struct ?st1))
        @ map group_outline (heading_groups ps)"
      by blast
    have o1: "upd_last (\<lambda>x. (fst x, snd x @ subsection_titles (snd x = []) ?tw))
                (outline (struct ?st1))
              = outline (struct st) @ [group_outline (heading_title p, ?tw)]"
      by (simp add: outline_open_section group_outline_def upd_last_snoc)
    have idl: "upd_last (\<lambda>x. (fst x, snd x @ subsection_titles (snd x = []) []))
                 (outline (struct st)) = outline (struct st)"
      using outline_nonempty[OF Cons.prems] by (simp add: subsection_titles_Nil upd_last_same)
    from run o show ?thesis
      by (simp add: step_section[OF sec] sec o1 idl)
  next
    case sub
    from refs_open_subsection[OF Cons.prems, of "heading_title p"] obtain st1 where
      s1: "open_subsection (heading_title p) st = Inr st1"
      and r1: "refs_at_end st1" and c1: "current_section st1 = Some i"
      by blast
    note o1 = outline_open_subsection[OF Cons.prems s1]
    from Cons.IH[OF r1 c1] obtain st' where
      run: "for_each process_primitive ps st1 = Inr st'"
      and o: "outline (struct st') =
        upd_last (\<lambda>x. (fst x, snd x @ subsection_titles (snd x = []) ?tw)) (outline (struct st1))
        @ map group_outline (heading_groups ps)"
      by blast
    from run o show ?thesis
      by (simp add: step_subsection[OF sub Cons.prems(2)] s1 subsection_not_heading[OF sub]
            o1 upd_last_upd_last subsection_titles_sub[OF sub])
  next
    case body
    from step_content[OF body(1,2), of st] body(3) obtain c where
      pc: "process_primitive p st = call_add_content c st" by blast
    from refs_call_add_content[OF Cons.prems(1), of c] obtain st1 where
      s1: "call_add_content c st = Inr st1"
      and r1: "refs_at_end st1" and c1: "current_section st1 = Some i"
      using Cons.prems(2) by auto
    note o1 = outline_add_content_open[OF Cons.prems s1]
    from Cons.IH[OF r1 c1] obtain st' where
      run: "for_each process_primitive ps st1 = Inr st'"
      and o: "outline (struct st') =
        upd_last (\<lambda>x. (fst x, snd x @ subsection_titles (snd x = []) ?tw)) (outline (struct st1))
        @ map group_outline (heading_groups ps)"
      by blast
    from run o show ?thesis
      apply (simp add: pc s1 body(2) o1 upd_last_upd_last)
      apply (rule upd_last_cong)
      apply (simp add: subsection_titles_body[OF body(1,3)])
      done
  qed
qed

lemma sections_nonempty_outline: "outline s \<noteq> [] \<longleftrightarrow> sections s \<noteq> []"
  by (simp add: outline_def)

lemma run_orphaned:
  "refs_at_end st \<Longrightarrow> current_section st = None \<Longrightarrow> sections (struct st) \<noteq> [] \<Longrightarrow>
   \<exists>st'. for_each process_primitive ps st = Inr st' \<and>
     outline (struct st') = outline (struct st) @ map group_outline (heading_groups ps)"
proof (induction ps arbitrary: st)
  case Nil
  then show ?case by simp
next
  case (Cons p ps)
  let ?tw = "takeWhile (\<lambda>q. \<not> is_section_heading q) ps"
  consider (skip) "is_skipped p" | (sec) "is_section_heading p"
    | (body) "\<not> is_skipped p" "\<not> is_section_heading p"
    by blast
  then show ?case
  proof cases
    case skip
    from Cons.IH[OF Cons.prems] show ?thesis
      by (simp add: step_skipped[OF skip] skipped_not_heading[OF skip])
  next
    case sec
    let ?st1 = "open_section (heading_title p) st"
    have r1: "refs_at_end ?st1" by (rule refs_open_section)
    have c1: "current_section ?st1 = Some (length (sections (struct st)))"
      by (simp add: open_section_def)
    from run_open[OF r1 c1, of ps] obtain st' where
      run: "for_each process_primitive ps ?st1 = Inr st'"
      and o: "outline (struct st') =
        upd_last (\<lambda>x. (fst x, snd x @ subsection_titles (snd x = []) ?tw)) (outline (struct ?st1))
        @ map group_outline (heading_groups ps)"
      by blast
    have o1: "upd_last (\<lambda>x. (fst x, snd x @ subsection_titles (snd x = []) ?tw))
                (outline (struct ?st1))
              = outline (struct st) @ [group_outline (heading_title p, ?tw)]"
      by (simp add: outline_open_section group_outline_def upd_last_snoc)
    from run o show ?thesis
      by (simp add: step_section[OF sec] sec o1)
  next
    case body
    from step_content[OF body, of st] Cons.prems(2) obtain c where
      pc: "process_primitive p st = call_add_content c st" by blast
    from refs_call_add_content[OF Cons.prems(1), of c] obtain st1 where
      s1: "call_add_content c st = Inr st1"
      and r1: "refs_at_end st1" and c1: "current_section st1 = None"
      using Cons.prems(2) by auto
    from outline_add_content_orphan[OF Cons.prems(1,2) s1] Cons.prems(3)
    have o1: "outline (struct st1) = outline (struct st)"
      by (simp add: sections_nonempty_outline)
    with Cons.prems(3) have n1: "sections (struct st1) \<noteq> []"
      using sections_nonempty_outline[of "struct st1"] sections_nonempty_outline[of "struct st"]
      by simp
    from Cons.IH[OF r1 c1 n1] show ?thesis
      by (simp add: pc s1 body(2) o1)
  qed
qed

lemma orphan_outline_skip: "is_skipped p \<Longrightarrow> orphan_outline (p # ps) = orphan_outline ps"
  by (simp add: orphan_outline_def skipped_not_heading)

lemma orphan_outline_heading: "is_section_heading p \<Longrightarrow> orphan_outline (p # ps) = []"
  by (simp add: orphan_outline_def)

lemma orphan_outline_body:
  "\<not> is_skipped p \<Longrightarrow> \<not> is_section_heading p \<Longrightarrow>
   orphan_outline (p # ps) = [(''Contenu principal'', [''Introduction''])]"
  by (simp add: orphan_outline_def)

lemma run_init:
  "refs_at_end st \<Longrightarrow> current_section st = None \<Longrightarrow> sections (struct st) = [] \<Longrightarrow>
   \<exists>st'. for_each process_primitive ps st = Inr st' \<and>
     outline (struct st') = expected_outline ps"
proof (induction ps arbitrary: st)
  case Nil
  then show ?case by (simp add: expected_outline_def orphan_outline_def outline_def)
next
  case (Cons p ps)
  let ?tw = "takeWhile (\<lambda>q. \<not> is_section_heading q) ps"
  have o0: "outline (struct st) = []" using Cons.prems(3) by (simp add: outline_def)
  consider (skip) "is_skipped p" | (sec) "is_section_heading p"
    | (body) "\<not> is_skipped p" "\<not> is_section_heading p"
    by blast
  then show ?case
  proof cases
    case skip
    from Cons.IH[OF Cons.prems] show ?thesis
      by (simp add: step_skipped[OF skip] skipped_not_heading[OF skip] expected_outline_def
            orphan_outline_skip[OF skip])
  next
    case sec
    let ?st1 = "open_section (heading_title p) st"
    have r1: "refs_at_end ?st1" by (rule refs_open_section)
    have c1: "current_section ?st1 = Some (length (sections (struct st)))"
      by (simp add: open_section_def)
    from run_open[OF r1 c1, of ps] obtain st' where
      run: "for_each process_primitive ps ?st1 = Inr st'"
      and o: "outline (struct st') =
        upd_last (\<lambda>x. (fst x, snd x @ subsection_titles (snd x = []) ?tw)) (outline (struct ?st1))
        @ map group_outline (heading_groups ps)"
      by blast
    have o1: "upd_last (\<lambda>x. (fst x, snd x @ subsection_titles (snd x = []) ?tw))
                (outline (struct ?st1))
              = [group_outline (heading_title p, ?tw)]"
      using o0 by (simp add: outline_open_section group_outline_def upd_last_def)
    from run o show ?thesis
      by (simp add: step_section[OF sec] sec o1 expected_outline_def
            orphan_outline_heading[OF sec])
  next
    case body
    from step_content[OF body, of st] Cons.prems(2) obtain c where
      pc: "process_primitive p st = call_add_content c st" by blast
    from refs_call_add_content[OF Cons.prems(1), of c] obtain st1 where
      s1: "call_add_content c st = Inr st1"
      and r1: "refs_at_end st1" and c1: "current_section st1 = None"
      using Cons.prems(2) by auto
    from outline_add_content_orphan[OF Cons.prems(1,2) s1] o0
    have o1: "outline (struct st1) = [(''Contenu principal'', [''Introduction''])]"
      by simp
    then have n1: "sections (struct st1) \<noteq> []"
      using sections_nonempty_outline[of "struct st1"] by simp
    from run_orphaned[OF r1 c1 n1, of ps] show ?thesis
      by (simp add: pc s1 body(2) o1 expected_outline_def orphan_outline_body[OF body])
  qed
qed

section \<open>Sections come in the order of their headings\<close>

lemma frozen_step:
  assumes "refs_at_end st" "current_section st = Some i" "process_primitive p st = Inr st'"
  shows "take i (sections (struct st')) = take i (sections (struct st)) \<and>
         refs_at_end st' \<and> (\<exists>i'. current_section st' = Some i' \<and> i \<le> i')"
proof -
  from assms(1,2) have e: "Suc i = length (sections (struct st))"
    by (simp add: refs_at_end_def)
  then have i: "i < length (sections (struct st))" by simp
  consider (skip) "is_skipped p" | (sec) "is_section_heading p" | (sub) "has_subsection_font p"
    | (body) "\<not> is_skipped p" "\<not> is_section_heading p" "\<not> has_subsection_font p"
    by blast
  then show ?thesis
  proof cases
    case skip
    from step_skipped[OF skip, of st] assms show ?thesis by auto
  next
    case sec
    from step_section[OF sec, of st] assms(3)
    have s: "st' = open_section (heading_title p) st" by simp
    show ?thesis
      unfolding s using e refs_open_section[of "heading_title p" st]
      by (simp add: open_section_def)
  next
    case sub
    from step_subsection[OF sub assms(2)] assms(3)
    have s: "open_subsection (heading_title p) st = Inr st'" by simp
    from refs_open_subsection[OF assms(1,2), of "heading_title p"] s
    have r: "refs_at_end st'" and c: "current_section st' = Some i" by auto
    from s open_subsection_Some[OF assms(2) i, of "heading_title p"]
    have "take i (sections (struct st')) = take i (sections (struct st))" by auto
    with r c show ?thesis by simp
  next
    case body
    from step_content[OF body(1,2), of st] body(3) obtain c where
      pc: "process_primitive p st = call_add_content c st" by blast
    with assms(3) have s: "call_add_content c st = Inr st'" by simp
    from refs_call_add_content[OF assms(1), of c] s assms(2)
    have r: "refs_at_end st'" and c: "current_section st' = Some i" by auto
    note a = call_add_content_sections(1)[OF s]
    have "take i (sections (struct st')) = take i (sections (struct st))"
    proof (cases "current_subsection st")
      case None
      from a None assms(2) add_content_at_sec[OF i, of c]
      have "struct st' = (struct st)\<lparr>sections := (sections (struct st))
            [i := (sections (struct st) ! i)\<lparr>subsections := upd_last (append_content c)
               (if subsections (sections (struct st) ! i) = []
                then [\<lparr>sub_title = ''Contenu'', content = []\<rparr>]
                else subsections (sections (struct st) ! i))\<rparr>]\<rparr>"
        by simp
      then have "sections (struct st') = (sections (struct st))
            [i := (sections (struct st) ! i)\<lparr>subsections := upd_last (append_content c)
               (if subsections (sections (struct st) ! i) = []
                then [\<lparr>sub_title = ''Contenu'', content = []\<rparr>]
                else subsections (sections (struct st) ! i))\<rparr>]"
        by simp
      then show ?thesis by simp
    next
      case (Some ij)
      obtain i' j where ij: "ij = (i', j)" by (cases ij)
      from assms(1,2) Some ij
      have i': "i' = i" and j: "Suc j = length (subsections (sections (struct st) ! i))"
        by (simp_all add: refs_at_end_def)
      from j have j': "j < length (subsections (sections (struct st) ! i))" by simp
      from a Some ij i' add_content_at_sub[OF i j', of c]
      have "struct st' = (struct st)\<lparr>sections := (sections (struct st))
            [i := (sections (struct st) ! i)\<lparr>subsections := (subsections (sections (struct st) ! i))
               [j := append_content c (subsections (sections (struct st) ! i) ! j)]\<rparr>]\<rparr>"
        by simp
      then have "sections (struct st') = (sections (struct st))
            [i := (sections (struct st) ! i)\<lparr>subsections := (subsections (sections (struct st) ! i))
               [j := append_content c (subsections (sections (struct st) ! i) ! j)]\<rparr>]"
        by simp
      then show ?thesis by simp
    qed
    with r c show ?thesis by simp
  qed
qed

lemma frozen_run:
  "refs_at_end st \<Longrightarrow> current_section st = Some i \<Longrightarrow>
   for_each process_primitive ps st = Inr st' \<Longrightarrow>
   take i (sections (struct st')) = take i (sections (struct st))"
proof (induction ps arbitrary: st i)
  case Nil
  then show ?case by simp
next
  case (Cons p ps)
  from Cons.prems(3) obtain st1 where s1: "process_primitive p st = Inr st1"
    and s2: "for_each process_primitive ps st1 = Inr st'"
    by (auto split: sum.splits)
  from frozen_step[OF Cons.prems(1,2) s1] obtain i1 where
    t1: "take i (sections (struct st1)) = take i (sections (struct st))"
    and r1: "refs_at_end st1" and c1: "current_section st1 = Some i1" and le: "i \<le> i1"
    by blast
  from Cons.IH[OF r1 c1 s2]
  have "take i1 (sections (struct st')) = take i1 (sections (struct st1))" .
  then have "take i (take i1 (sections (struct st'))) = take i (take i1 (sections (struct st1)))"
    by simp
  with le have "take i (sections (struct st')) = take i (sections (struct st1))"
    by (simp add: min_def)
  with t1 show ?case by simp
qed

lemma heading_freezes:
  assumes "is_section_heading p"
    and "for_each process_primitive (p # ps) st = Inr st'"
  shows "take (length (sections (struct st))) (sections (struct st')) = sections (struct st)"
proof -
  let ?st1 = "open_section (heading_title p) st"
  from assms step_section[OF assms(1), of st]
  have run: "for_each process_primitive ps ?st1 = Inr st'" by simp
  have r1: "refs_at_end ?st1" by (rule refs_open_section)
  have c1: "current_section ?st1 = Some (length (sections (struct st)))"
    by (simp add: open_section_def)
  from frozen_run[OF r1 c1 run] show ?thesis
    by (simp add: open_section_def)
qed

lemma fst_group_outline: "map (fst \<circ> group_outline) gs = map fst gs"
  by (simp add: group_outline_def)

lemma sec_title_outline: "map sec_title (sections s) = map fst (outline s)"
  by (simp add: outline_def section_outline_def)

lemma sub_titles_outline:
  "j < length (sections s) \<Longrightarrow> map sub_title (subsections (sections s ! j)) = snd (outline s ! j)"
  by (simp add: outline_def section_outline_def)

text \<open>
  C6. The pass over a stream of primitives, from the initial state, returns a state whose
  tree has this outline: the default pair first, when an item arrives before the first
  section heading; then one section for each section heading of the stream, in the order
  of the stream and under the title of the heading; and in each of these sections, after
  the subsection \<open>Contenu\<close> when an item arrives before the first subsection heading of
  the section, one subsection for each span with the subsection font between this
  section heading and the next, in the order of the stream. A section heading closes what
  was built before it: the sections that are in the tree when the heading arrives, with
  their subsections and their content, are the same at the end of the pass, so nothing
  that comes after the heading is attached to an earlier subsection. The structure that
  \<open>_analyze_with_pymupdf\<close> returns has the outline of the primitives of the document.
\<close>

theorem heading_order:
  "\<exists>st. for_each process_primitive ps (initial_state now t doc) = Inr st \<and>
     outline (struct st) = expected_outline ps \<and>
     map sec_title (sections (struct st)) =
       map fst (orphan_outline ps) @ map heading_title (filter is_section_heading ps) \<and>
     (\<forall>k < length (heading_groups ps).
        map sub_title (subsections (sections (struct st) ! (length (orphan_outline ps) + k)))
          = subsection_titles True (snd (heading_groups ps ! k))) \<and>
     (\<forall>ps1 p ps2 st1.
        ps = ps1 @ p # ps2 \<and> is_section_heading p \<and>
        for_each process_primitive ps1 (initial_state now t doc) = Inr st1 \<longrightarrow>
          take (length (sections (struct st1))) (sections (struct st)) = sections (struct st1)) \<and>
     (\<forall>s. analyze_with_pymupdf now doc = Inr s \<longrightarrow> outline s = expected_outline (primitives doc))"
proof -
  have init: "refs_at_end (initial_state now t' doc)"
    "current_section (initial_state now t' doc) = None"
    "sections (struct (initial_state now t' doc)) = []" for t'
    by (simp_all add: refs_initial_state) (simp_all add: initial_state_def)
  from run_init[OF init[of t], where ps = ps] obtain st where
    run: "for_each process_primitive ps (initial_state now t doc) = Inr st"
    and o: "outline (struct st) = expected_outline ps"
    by blast
  have titles: "map sec_title (sections (struct st)) =
       map fst (orphan_outline ps) @ map heading_title (filter is_section_heading ps)"
    by (simp add: sec_title_outline o expected_outline_def fst_group_outline heading_groups_titles)
  have len: "length (sections (struct st)) = length (orphan_outline ps) + length (heading_groups ps)"
    using arg_cong[OF o, of length] by (simp add: outline_def expected_outline_def)
  have subs: "\<forall>k < length (heading_groups ps).
        map sub_title (subsections (sections (struct st) ! (length (orphan_outline ps) + k)))
          = subsection_titles True (snd (heading_groups ps ! k))"
  proof (intro allI impI)
    fix k assume k: "k < length (heading_groups ps)"
    with len have j: "length (orphan_outline ps) + k < length (sections (struct st))" by simp
    have "outline (struct st) ! (length (orphan_outline ps) + k)
          = group_outline (heading_groups ps ! k)"
      using k by (simp add: o expected_outline_def nth_append)
    with sub_titles_outline[OF j] show
      "map sub_title (subsections (sections (struct st) ! (length (orphan_outline ps) + k)))
          = subsection_titles True (snd (heading_groups ps ! k))"
      by (simp add: group_outline_def)
  qed
  have frozen: "\<forall>ps1 p ps2 st1.
        ps = ps1 @ p # ps2 \<and> is_section_heading p \<and>
        for_each process_primitive ps1 (initial_state now t doc) = Inr st1 \<longrightarrow>
          take (length (sections (struct st1))) (sections (struct st)) = sections (struct st1)"
  proof (intro allI impI, elim conjE)
    fix ps1 p ps2 st1
    assume ps: "ps = ps1 @ p # ps2" and h: "is_section_heading p"
      and r1: "for_each process_primitive ps1 (initial_state now t doc) = Inr st1"
    from run ps r1 have "for_each process_primitive (p # ps2) st1 = Inr st"
      by (simp add: for_each_append)
    from heading_freezes[OF h this]
    show "take (length (sections (struct st1))) (sections (struct st)) = sections (struct st1)" .
  qed
  have whole: "\<forall>s. analyze_with_pymupdf now doc = Inr s \<longrightarrow>
      outline s = expected_outline (primitives doc)"
  proof (intro allI impI)
    fix s assume a: "analyze_with_pymupdf now doc = Inr s"
    then obtain t' st2 where
      st2: "for_each process_page (enumerate 0 (doc_pages doc)) (initial_state now t' doc) = Inr st2"
      and s: "s = struct st2"
      by (auto simp: analyze_with_pymupdf_def split: sum.splits)
    from run_init[OF init[of t'], where ps = "primitives doc"] st2 s
    show "outline s = expected_outline (primitives doc)"
      by (auto simp: process_pages_primitives)
  qed
  from run o titles subs frozen whole show ?thesis by blast
qed

lemma expected_outline_sample:
  "expected_outline sample_stream =
     [(''Contenu principal'', [''Introduction'']),
      (''Intro'', [''Contenu'', ''Sub'']),
      (''Intro'', [''Sub''])]"
  by (simp add: expected_outline_def orphan_outline_def group_outline_def subsection_titles_def
        needs_default_def sample_stream_def hello_span_def is_skipped_def is_section_heading_def
        has_subsection_font_def heading_title_def section_font_def subsection_font_def
        strip_hello strip_Intro strip_blank strip_Sub)

lemma sample_groups:
  "length (orphan_outline sample_stream) = 1 \<and>
   length (heading_groups sample_stream) = 2 \<and>
   subsection_titles True (snd (heading_groups sample_stream ! 1)) = [''Sub'']"
  by (simp add: orphan_outline_def subsection_titles_def
        needs_default_def sample_stream_def hello_span_def is_skipped_def is_section_heading_def
        has_subsection_font_def heading_title_def section_font_def subsection_font_def
        strip_hello strip_Intro strip_blank strip_Sub)

theorem heading_order_witness:
  "\<exists>st. for_each process_primitive sample_stream (initial_state ''now'' ''T'' blank_doc) = Inr st \<and>
     outline (struct st) =
       [(''Contenu principal'', [''Introduction'']),
        (''Intro'', [''Contenu'', ''Sub'']),
        (''Intro'', [''Sub''])] \<and>
     map sub_title (subsections (sections (struct st) ! 2)) = [''Sub''] \<and>
     take (length (sections (struct hello_state))) (sections (struct st))
       = sections (struct hello_state)"
proof -
  from heading_order [of sample_stream "''now''" "''T''" blank_doc] obtain st where
    run: "for_each process_primitive sample_stream (initial_state ''now'' ''T'' blank_doc) = Inr st"
    and o: "outline (struct st) = expected_outline sample_stream"
    and subs: "\<forall>k < length (heading_groups sample_stream).
        map sub_title (subsections (sections (struct st) !
           (length (orphan_outline sample_stream) + k)))
          = subsection_titles True (snd (heading_groups sample_stream ! k))"
    and frozen: "\<forall>ps1 p ps2 st1.
        sample_stream = ps1 @ p # ps2 \<and> is_section_heading p \<and>
        for_each process_primitive ps1 (initial_state ''now'' ''T'' blank_doc) = Inr st1 \<longrightarrow>
          take (length (sections (struct st1))) (sections (struct st)) = sections (struct st1)"
    by blast
  from subs sample_groups
  have s2: "map sub_title (subsections (sections (struct st) ! 2)) = [''Sub'']"
    by (metis Suc_1 lessI plus_1_eq_Suc)
  have split: "sample_stream = [TextRun hello_span] @
      TextRun \<lparr>span_text = ''Intro'', span_size = 18, span_flags = 0\<rparr> #
      drop 2 sample_stream"
    by (simp add: sample_stream_def)
  have h: "is_section_heading (TextRun \<lparr>span_text = ''Intro'', span_size = 18, span_flags = 0\<rparr>)"
    by (simp add: is_section_heading_def section_font_def strip_Intro)
  from frozen split h hello_run
  have f: "take (length (sections (struct hello_state))) (sections (struct st))
       = sections (struct hello_state)"
    by blast
  from run o s2 f show ?thesis
    by (auto simp: expected_outline_sample)
qed

end
